theory Spec2Isabelle
  imports Main "HOL-Library.AList"
begin

section \<open>Data model\<close>

text \<open>
  \<^verbatim>\<open>backend/models.py\<close>: a row of the table \<^verbatim>\<open>users\<close>. The nullable columns are
  options; the primary key column \<^verbatim>\<open>id\<close> is named \<open>id_user\<close> here.
\<close>

record User =
  id_user :: int
  username :: string
  password_hash :: string
  is_active :: bool
  is_admin :: bool
  tg_bot_token :: "string option"
  vk_token :: "string option"
  system_prompt :: "string option"

text \<open>
  \<^verbatim>\<open>BotThread.__init__\<close>: the fields of a worker. The application object keeps the
  token it was built with; the event loop of the thread is new, running or closed.
\<close>

datatype application = Application (app_token: string)

datatype loop_state = LoopNew | LoopRunning | LoopClosed

record BotThread =
  token :: string
  user_id :: int
  application :: "application option"
  running :: bool
  loop :: "loop_state option"

definition BotThread_init :: "string \<Rightarrow> int \<Rightarrow> BotThread" where
  "BotThread_init tok uid =
     \<lparr>token = tok, user_id = uid, application = None, running = True, loop = None\<rparr>"

text \<open>The exceptions the modelled code can meet; all of them derive from \<^verbatim>\<open>Exception\<close>.\<close>

datatype exn = RequestException | HTTPError | JSONDecodeError | KeyError | IndexError | TypeError

text \<open>Values of Python as far as \<^verbatim>\<open>response.json()\<close> produces them.\<close>

datatype json =
    JNull
  | JBool bool
  | JNum int
  | JStr string
  | JArr "json list"
  | JObj "(string \<times> json) list"

text \<open>
  What the program does to the world, in the order it does it: the calls on worker
  threads, the log lines, the sessions of the store, the HTTP request of the completion
  call and the replies sent to the messaging platform.
\<close>

datatype log_line =
    StoppingBot int
  | StartingBot int
  | StopBotFailed int
  | BotFailed int
  | GptFailed exn

datatype effect =
    SessionOpen
  | SessionClose
  | LoggerInfo log_line
  | LoggerError log_line
  | ThreadStop int
  | AppStop int
  | AppShutdown int
  | ThreadJoin int
  | ThreadStart int string
  | HttpPost string string
  | ReplyText json

section \<open>The supervisor: \<^verbatim>\<open>BotManager.update_bots\<close>\<close>

text \<open>
  The registry \<^verbatim>\<open>self.bots\<close> and the dictionary \<^verbatim>\<open>user_tokens\<close> are association
  lists in insertion order, as Python dictionaries are: \<open>AList.update\<close> overwrites in
  place or appends, \<open>AList.delete\<close> removes a key, \<open>map_of\<close> reads. A registry that
  is a dictionary has one entry per key: \<open>distinct (map fst bots)\<close>. The registry holds
  each worker as the record of its fields; \<^verbatim>\<open>application\<close> and \<^verbatim>\<open>loop\<close> are written
  by the worker's own thread, and the supervisor reads them only in \<^verbatim>\<open>stop\<close>.
\<close>

type_synonym registry = "(int \<times> BotThread) list"

text \<open>
  Lines 110 and 111: the rows whose token is neither NULL nor the empty string, then the
  dictionary comprehension over them (a later row overwrites an earlier one with the
  same id).
\<close>

definition active_users :: "User list \<Rightarrow> (int \<times> string) list" where
  "active_users db =
     List.map_filter
       (\<lambda>u. case tg_bot_token u of
               None \<Rightarrow> None
             | Some t \<Rightarrow> if t = [] then None else Some (id_user u, t)) db"

definition user_tokens :: "User list \<Rightarrow> (int \<times> string) list" where
  "user_tokens db = foldl (\<lambda>m (uid, t). AList.update uid t m) [] (active_users db)"

text \<open>
  What a worker thread does when the supervisor acts on it is not decided by the
  supervisor's code: whether \<^verbatim>\<open>run_until_complete(stop_application())\<close> completes or
  raises, and whether the thread ever finishes, so that \<^verbatim>\<open>join()\<close> returns. Both are
  parameters, per tenant.
\<close>

record thread_env =
  stop_completes :: "int \<Rightarrow> bool"
  thread_finishes :: "int \<Rightarrow> bool"

text \<open>
  \<^verbatim>\<open>BotThread.stop\<close>: clears the flag; when the application and the loop exist and
  the loop is running, stops and shuts the application down, logging any exception. It
  returns in every case.
\<close>

definition BotThread_stop :: "thread_env \<Rightarrow> BotThread \<Rightarrow> BotThread \<times> effect list" where
  "BotThread_stop env self =
     (let self' = self\<lparr>running := False\<rparr> in
      if application self' \<noteq> None \<and> loop self' \<noteq> None then
        (if loop self' = Some LoopRunning then
           (if stop_completes env (user_id self')
            then (self', [AppStop (user_id self'), AppShutdown (user_id self')])
            else (self', [LoggerError (StopBotFailed (user_id self'))]))
         else (self', []))
      else (self', []))"

text \<open>
  A call of \<^verbatim>\<open>update_bots\<close> returns, raises, or blocks for ever in a \<^verbatim>\<open>join()\<close>;
  each outcome carries the effects up to that point, and a blocked call the registry as
  it stands while the call waits.
\<close>

datatype result =
    Returned registry "effect list"
  | Raised exn "effect list"
  | Blocked registry "effect list"

fun after :: "effect list \<Rightarrow> result \<Rightarrow> result" where
  "after es (Returned bots fs) = Returned bots (es @ fs)"
| "after es (Raised e fs) = Raised e (es @ fs)"
| "after es (Blocked bots fs) = Blocked bots (es @ fs)"

text \<open>
  The test of line 115, with Python's short-circuit \<^verbatim>\<open>or\<close>: a tenant that is not
  desired is stale without the registry being read; otherwise \<^verbatim>\<open>self.bots[user_id]\<close>
  is read, which raises \<^verbatim>\<open>KeyError\<close> on a key that is gone.
\<close>

definition stale :: "(int \<times> string) list \<Rightarrow> registry \<Rightarrow> int \<Rightarrow> exn + bool" where
  "stale ut bots uid =
     (case map_of ut uid of
        None \<Rightarrow> Inr True
      | Some t \<Rightarrow>
          (case map_of bots uid of
             None \<Rightarrow> Inl KeyError
           | Some thr \<Rightarrow> Inr (token thr \<noteq> t)))"

text \<open>
  Lines 114 to 119: the loop over a copy of the keys. A stale worker is logged, stopped,
  joined and deleted; \<^verbatim>\<open>join()\<close> has no timeout, so it returns only when the thread
  finishes. While the call waits, the registry still holds the worker, as \<^verbatim>\<open>stop\<close>
  left it.
\<close>

fun stop_loop :: "thread_env \<Rightarrow> (int \<times> string) list \<Rightarrow> int list \<Rightarrow> registry \<Rightarrow> result" where
  "stop_loop env ut [] bots = Returned bots []"
| "stop_loop env ut (uid # uids) bots =
     (case stale ut bots uid of
        Inl e \<Rightarrow> Raised e []
      | Inr False \<Rightarrow> stop_loop env ut uids bots
      | Inr True \<Rightarrow>
          (case map_of bots uid of
             None \<Rightarrow> Raised KeyError [LoggerInfo (StoppingBot uid)]
           | Some thr \<Rightarrow>
               (let es = [LoggerInfo (StoppingBot uid), ThreadStop uid] @ snd (BotThread_stop env thr) in
                if thread_finishes env uid
                then after (es @ [ThreadJoin uid]) (stop_loop env ut uids (AList.delete uid bots))
                else Blocked (AList.update uid (fst (BotThread_stop env thr)) bots) es)))"

text \<open>Lines 122 to 127: the loop over the items of \<^verbatim>\<open>user_tokens\<close>.\<close>

fun start_loop :: "(int \<times> string) list \<Rightarrow> registry \<Rightarrow> registry \<times> effect list" where
  "start_loop [] bots = (bots, [])"
| "start_loop ((uid, tok) # items) bots =
     (if map_of bots uid = None then
        (let (bots', es) = start_loop items (AList.update uid (BotThread_init tok uid) bots)
         in (bots', [LoggerInfo (StartingBot uid), ThreadStart uid tok] @ es))
      else start_loop items bots)"

text \<open>
  \<^verbatim>\<open>update_bots\<close>: the session is closed by the \<^verbatim>\<open>finally\<close> clause on return and on
  an exception alike.
\<close>

definition update_bots :: "thread_env \<Rightarrow> User list \<Rightarrow> registry \<Rightarrow> result" where
  "update_bots env db bots =
     (let ut = user_tokens db in
      case stop_loop env ut (map fst bots) bots of
        Returned bots1 es1 \<Rightarrow>
          (let (bots2, es2) = start_loop ut bots1
           in Returned bots2 ([SessionOpen] @ es1 @ es2 @ [SessionClose]))
      | Raised e es1 \<Rightarrow> Raised e ([SessionOpen] @ es1 @ [SessionClose])
      | Blocked bots1 es1 \<Rightarrow> Blocked bots1 ([SessionOpen] @ es1))"

section \<open>The supervisor loop: \<^verbatim>\<open>BotManager.run\<close>\<close>

text \<open>
  \<^verbatim>\<open>while True: self.update_bots(); time.sleep(10)\<close> on a logical clock. Each pass of
  the loop meets a snapshot of the table, a behaviour of the worker threads and a time
  that \<^verbatim>\<open>update_bots\<close> takes; the list of passes is a prefix of the endless run. The
  result is the start and end time of every completed call of \<^verbatim>\<open>update_bots\<close>, and the
  registry after the last pass, or \<open>None\<close> when a call raised or blocked and the loop
  went no further.
\<close>

record cycle =
  snapshot :: "User list"
  threads :: thread_env
  duration :: nat

fun BotManager_run :: "cycle list \<Rightarrow> nat \<Rightarrow> registry \<Rightarrow> (nat \<times> nat) list \<times> registry option" where
  "BotManager_run [] now bots = ([], Some bots)"
| "BotManager_run (c # cs) now bots =
     (case update_bots (threads c) (snapshot c) bots of
        Returned bots' es \<Rightarrow>
          (let finished = now + duration c;
               (timeline, final) = BotManager_run cs (finished + 10) bots'
           in ((now, finished) # timeline, final))
      | Raised e es \<Rightarrow> ([], None)
      | Blocked bots' es \<Rightarrow> ([], None))"

section \<open>The worker: \<^verbatim>\<open>BotThread.run\<close>\<close>

text \<open>
  What the thread of a worker meets: building the application, \<^verbatim>\<open>initialize\<close>,
  \<^verbatim>\<open>start\<close> or \<^verbatim>\<open>run_polling\<close> raises, or polling returns, or polling goes on for
  ever. When \<^verbatim>\<open>run_polling()\<close> returns, line 84 hands its result \<^verbatim>\<open>None\<close> to
  \<^verbatim>\<open>run_until_complete\<close>, which raises. An exception is logged and swallowed, the
  loop is closed in every case; the method has no access to the manager or its
  registry.
\<close>

datatype run_outcome =
    BuildRaises
  | InitializeRaises
  | StartRaises
  | PollingRaises
  | PollingReturns
  | PollingForever

definition BotThread_run :: "run_outcome \<Rightarrow> BotThread \<Rightarrow> (BotThread \<times> effect list) option" where
  "BotThread_run outcome self =
     (let self1 = self\<lparr>loop := Some LoopNew\<rparr>;
          self2 = self1\<lparr>application := Some (Application (token self1))\<rparr>
      in case outcome of
           BuildRaises \<Rightarrow>
             Some (self1\<lparr>loop := Some LoopClosed\<rparr>, [LoggerError (BotFailed (user_id self1))])
         | InitializeRaises \<Rightarrow>
             Some (self2\<lparr>loop := Some LoopClosed\<rparr>, [LoggerError (BotFailed (user_id self2))])
         | StartRaises \<Rightarrow>
             Some (self2\<lparr>loop := Some LoopClosed\<rparr>, [LoggerError (BotFailed (user_id self2))])
         | PollingRaises \<Rightarrow>
             Some (self2\<lparr>loop := Some LoopClosed\<rparr>, [LoggerError (BotFailed (user_id self2))])
         | PollingReturns \<Rightarrow>
             Some (self2\<lparr>loop := Some LoopClosed\<rparr>, [LoggerError (BotFailed (user_id self2))])
         | PollingForever \<Rightarrow> None)"

section \<open>The completion call: \<^verbatim>\<open>get_yandex_gpt_response\<close>\<close>

text \<open>
  Python's subscription on a value parsed from JSON: by a string key and by the index 0.
  A dictionary raises \<^verbatim>\<open>KeyError\<close> on a missing key (its keys are strings, so 0 is
  never one), a list raises \<^verbatim>\<open>IndexError\<close> when empty and \<^verbatim>\<open>TypeError\<close> on a string
  key, a string gives its first character at 0, everything else raises
  \<^verbatim>\<open>TypeError\<close>. Strings are UTF-8 bytes, so the first character is one to four of
  them.
\<close>

definition first_char :: "string \<Rightarrow> string" where
  "first_char s =
     (case s of
        [] \<Rightarrow> []
      | c # _ \<Rightarrow>
          take (if (of_char c :: nat) < 128 then 1
                else if (of_char c :: nat) < 224 then 2
                else if (of_char c :: nat) < 240 then 3 else 4) s)"

fun getitem_key :: "json \<Rightarrow> string \<Rightarrow> exn + json" where
  "getitem_key (JObj kvs) k = (case map_of kvs k of None \<Rightarrow> Inl KeyError | Some v \<Rightarrow> Inr v)"
| "getitem_key _ k = Inl TypeError"

fun getitem_0 :: "json \<Rightarrow> exn + json" where
  "getitem_0 (JArr xs) = (case xs of [] \<Rightarrow> Inl IndexError | x # _ \<Rightarrow> Inr x)"
| "getitem_0 (JObj kvs) = Inl KeyError"
| "getitem_0 (JStr s) = (if s = [] then Inl IndexError else Inr (JStr (first_char s)))"
| "getitem_0 _ = Inl TypeError"

text \<open>
  What \<^verbatim>\<open>requests.post\<close> does: it raises, or it returns a response with a status code
  and a body that is JSON or is not, or, as the call is made without a timeout, it
  never returns.
\<close>

datatype post_outcome = PostRaises | PostReturns int "json option" | PostNeverReturns

text \<open>
  The body of the \<^verbatim>\<open>try\<close>: the request, \<^verbatim>\<open>raise_for_status\<close> (an error for the
  status codes 400 to 599), \<^verbatim>\<open>response.json()\<close> and the path
  \<^verbatim>\<open>["result"]["alternatives"][0]["message"]["text"]\<close>, on a response that came.
\<close>

definition response_text :: "int \<Rightarrow> json option \<Rightarrow> exn + json" where
  "response_text status body =
     (if 400 \<le> status \<and> status < 600 then Inl HTTPError
      else
        (case body of
           None \<Rightarrow> Inl JSONDecodeError
         | Some j \<Rightarrow>
             (case getitem_key j ''result'' of
                Inl e \<Rightarrow> Inl e
              | Inr r \<Rightarrow>
                  (case getitem_key r ''alternatives'' of
                     Inl e \<Rightarrow> Inl e
                   | Inr alts \<Rightarrow>
                       (case getitem_0 alts of
                          Inl e \<Rightarrow> Inl e
                        | Inr alt \<Rightarrow>
                            (case getitem_key alt ''message'' of
                               Inl e \<Rightarrow> Inl e
                             | Inr msg \<Rightarrow> getitem_key msg ''text''))))))"

text \<open>
  The body of the \<^verbatim>\<open>try\<close> as a whole: \<open>None\<close> when the request never returns,
  otherwise the exception raised or the value reached.
\<close>

definition completion_body :: "post_outcome \<Rightarrow> (exn + json) option" where
  "completion_body http =
     (case http of
        PostRaises \<Rightarrow> Some (Inl RequestException)
      | PostReturns status body \<Rightarrow> Some (response_text status body)
      | PostNeverReturns \<Rightarrow> None)"

text \<open>
  The two fixed replies, as the UTF-8 bytes of the literals in the source: ``sorry, an
  error occurred while generating the answer'' and ``sorry, the system prompt is not
  configured''.
\<close>

definition GENERATION_ERROR_REPLY :: string where
  "GENERATION_ERROR_REPLY = map char_of
     [208, 152, 208, 183, 208, 178, 208, 184, 208, 189, 208, 184, 209, 130, 208, 181, 44, 32,
      208, 191, 209, 128, 208, 190, 208, 184, 208, 183, 208, 190, 209, 136, 208, 187, 208, 176,
      32, 208, 190, 209, 136, 208, 184, 208, 177, 208, 186, 208, 176, 32, 208, 191, 209, 128,
      208, 184, 32, 208, 179, 208, 181, 208, 189, 208, 181, 209, 128, 208, 176, 209, 134, 208,
      184, 208, 184, 32, 208, 190, 209, 130, 208, 178, 208, 181, 209, 130, 208, 176, 46 :: nat]"

definition PROMPT_NOT_CONFIGURED_REPLY :: string where
  "PROMPT_NOT_CONFIGURED_REPLY = map char_of
     [208, 152, 208, 183, 208, 178, 208, 184, 208, 189, 208, 184, 209, 130, 208, 181, 44, 32,
      209, 129, 208, 184, 209, 129, 209, 130, 208, 181, 208, 188, 208, 189, 209, 139, 208, 185,
      32, 208, 191, 209, 128, 208, 190, 208, 188, 208, 191, 209, 130, 32, 208, 189, 208, 181,
      32, 208, 189, 208, 176, 209, 129, 209, 130, 209, 128, 208, 190, 208, 181, 208, 189,
      46 :: nat]"

text \<open>
  \<^verbatim>\<open>get_yandex_gpt_response\<close>: the value the \<^verbatim>\<open>try\<close> produced, whatever it is, or,
  on any exception, a log line and the fixed reply; no value when the request never
  returns.
\<close>

definition get_yandex_gpt_response ::
    "post_outcome \<Rightarrow> string \<Rightarrow> string \<Rightarrow> json option \<times> effect list" where
  "get_yandex_gpt_response http prompt sys_prompt =
     (case completion_body http of
        None \<Rightarrow> (None, [HttpPost prompt sys_prompt])
      | Some (Inr txt) \<Rightarrow> (Some txt, [HttpPost prompt sys_prompt])
      | Some (Inl e) \<Rightarrow>
          (Some (JStr GENERATION_ERROR_REPLY),
           [HttpPost prompt sys_prompt, LoggerError (GptFailed e)]))"

section \<open>The worker: \<^verbatim>\<open>BotThread.handle_message\<close>\<close>

datatype message = Message (message_text: "string option")

datatype update = Update (message: "message option")

text \<open>
  A call of the handler returns, or waits for ever in the completion request; each
  outcome carries the effects up to that point.
\<close>

datatype handled = HandlerReturned "effect list" | HandlerBlocked "effect list"

fun effects_of :: "handled \<Rightarrow> effect list" where
  "effects_of (HandlerReturned es) = es"
| "effects_of (HandlerBlocked es) = es"

text \<open>
  An update without a message, or with a message whose text is \<^verbatim>\<open>None\<close> or empty, is
  dropped before the store is opened. Otherwise the row of the worker's tenant is read
  (\<^verbatim>\<open>first()\<close> gives \<^verbatim>\<open>None\<close> when there is none); a reply is sent and the
  \<^verbatim>\<open>finally\<close> clause closes the session, unless the completion call never returns.
\<close>

definition handle_message :: "User list \<Rightarrow> post_outcome \<Rightarrow> BotThread \<Rightarrow> update \<Rightarrow> handled" where
  "handle_message db http self upd =
     (case message upd of
        None \<Rightarrow> HandlerReturned []
      | Some m \<Rightarrow>
          (case message_text m of
             None \<Rightarrow> HandlerReturned []
           | Some txt \<Rightarrow>
               if txt = [] then HandlerReturned []
               else
                 (case find (\<lambda>u. id_user u = user_id self) db of
                    None \<Rightarrow>
                      HandlerReturned
                        [SessionOpen, ReplyText (JStr PROMPT_NOT_CONFIGURED_REPLY), SessionClose]
                  | Some user \<Rightarrow>
                      (case system_prompt user of
                         None \<Rightarrow>
                           HandlerReturned
                             [SessionOpen, ReplyText (JStr PROMPT_NOT_CONFIGURED_REPLY),
                              SessionClose]
                       | Some sp \<Rightarrow>
                           (case get_yandex_gpt_response http txt sp of
                              (None, es) \<Rightarrow> HandlerBlocked ([SessionOpen] @ es)
                            | (Some response, es) \<Rightarrow>
                                HandlerReturned
                                  ([SessionOpen] @ es @ [ReplyText response, SessionClose]))))))"

text \<open>Reading a trace: the completion calls made and the replies sent, in order.\<close>

fun completion_calls :: "effect list \<Rightarrow> (string \<times> string) list" where
  "completion_calls [] = []"
| "completion_calls (HttpPost p s # es) = (p, s) # completion_calls es"
| "completion_calls (_ # es) = completion_calls es"

fun replies :: "effect list \<Rightarrow> json list" where
  "replies [] = []"
| "replies (ReplyText r # es) = r # replies es"
| "replies (_ # es) = replies es"

text \<open>The worker starts and stops named in a trace.\<close>

fun started :: "effect list \<Rightarrow> int list" where
  "started [] = []"
| "started (ThreadStart uid tok # es) = uid # started es"
| "started (_ # es) = started es"

fun stopped :: "effect list \<Rightarrow> int list" where
  "stopped [] = []"
| "stopped (ThreadStop uid # es) = uid # stopped es"
| "stopped (_ # es) = stopped es"

section \<open>Concrete tenants, workers and environments\<close>

text \<open>A row of the table with the given id, bot token and system prompt.\<close>

definition tenant :: "int \<Rightarrow> string option \<Rightarrow> string option \<Rightarrow> User" where
  "tenant uid tok sp =
     \<lparr>id_user = uid, username = ''tenant'', password_hash = ''hash'', is_active = True,
      is_admin = False, tg_bot_token = tok, vk_token = None, system_prompt = sp\<rparr>"

text \<open>A registry entry as the start loop leaves it.\<close>

definition worker :: "int \<Rightarrow> string \<Rightarrow> int \<times> BotThread" where
  "worker uid tok = (uid, BotThread_init tok uid)"

text \<open>A registry entry whose thread is inside \<^verbatim>\<open>run_polling\<close>.\<close>

definition polling_worker :: "int \<Rightarrow> string \<Rightarrow> int \<times> BotThread" where
  "polling_worker uid tok =
     (uid, \<lparr>token = tok, user_id = uid, application = Some (Application tok), running = True,
            loop = Some LoopRunning\<rparr>)"

text \<open>A registry entry after \<^verbatim>\<open>stop\<close> was called on its worker: the flag is cleared.\<close>

definition stopped_entry :: "int \<times> BotThread \<Rightarrow> int \<times> BotThread" where
  "stopped_entry entry = (fst entry, (snd entry)\<lparr>running := False\<rparr>)"

text \<open>
  Two behaviours of the worker threads: stopping the application works and every thread
  finishes; stopping the application raises and no thread ever finishes.
\<close>

definition threads_finish :: thread_env where
  "threads_finish = \<lparr>stop_completes = (\<lambda>uid. True), thread_finishes = (\<lambda>uid. True)\<rparr>"

definition threads_hang :: thread_env where
  "threads_hang = \<lparr>stop_completes = (\<lambda>uid. False), thread_finishes = (\<lambda>uid. False)\<rparr>"

text \<open>A pass of the supervisor loop with an empty table, taking \<open>d\<close> time units.\<close>

definition quiet_cycle :: "nat \<Rightarrow> cycle" where
  "quiet_cycle d = \<lparr>snapshot = [], threads = threads_finish, duration = d\<rparr>"

text \<open>A registry entry whose thread has left \<^verbatim>\<open>run\<close>: the loop is closed.\<close>

definition dead_worker :: "int \<Rightarrow> string \<Rightarrow> int \<times> BotThread" where
  "dead_worker uid tok =
     (uid, \<lparr>token = tok, user_id = uid, application = Some (Application tok), running = True,
            loop = Some LoopClosed\<rparr>)"

text \<open>
  An update carrying a text message; a response of the completion service holding a
  given value under \<^verbatim>\<open>text\<close>, one with an answer, and one whose list of alternatives
  is empty.
\<close>

definition text_update :: "string \<Rightarrow> update" where
  "text_update txt = Update (Some (Message (Some txt)))"

definition response_with :: "json \<Rightarrow> post_outcome" where
  "response_with v =
     PostReturns 200
       (Some (JObj [(''result'',
          JObj [(''alternatives'',
            JArr [JObj [(''message'',
              JObj [(''role'', JStr ''assistant''), (''text'', v)])]])])]))"

definition completion_response :: "string \<Rightarrow> post_outcome" where
  "completion_response txt = response_with (JStr txt)"

definition no_alternatives :: post_outcome where
  "no_alternatives =
     PostReturns 200 (Some (JObj [(''result'', JObj [(''alternatives'', JArr [])])]))"

section \<open>Lemmas on the two loops of \<^verbatim>\<open>update_bots\<close>\<close>

lemma after_Returned:
  "after es r = Returned bots' fs \<longleftrightarrow> (\<exists>gs. r = Returned bots' gs \<and> fs = es @ gs)"
  by (cases r) auto

lemma stale_delete_other:
  "k \<noteq> uid \<Longrightarrow> stale ut (AList.delete uid bots) k = stale ut bots k"
  by (simp add: stale_def split: option.splits)

lemma stop_loop_step:
  assumes "stop_loop env ut (uid # uids) bots = Returned bots' es"
  shows "(stale ut bots uid = Inr False \<and> stop_loop env ut uids bots = Returned bots' es) \<or>
         (stale ut bots uid = Inr True \<and> thread_finishes env uid \<and>
          (\<exists>thr gs. map_of bots uid = Some thr \<and>
             stop_loop env ut uids (AList.delete uid bots) = Returned bots' gs \<and>
             es = [LoggerInfo (StoppingBot uid), ThreadStop uid] @ snd (BotThread_stop env thr)
                    @ [ThreadJoin uid] @ gs))"
  using assms
  by (auto simp: after_Returned Let_def split: sum.splits bool.splits option.splits if_splits)

lemma stop_loop_map_of:
  "stop_loop env ut uids bots = Returned bots' es \<Longrightarrow>
   map_of bots' k =
     (if k \<in> set uids \<and> stale ut bots k = Inr True then None else map_of bots k)"
proof (induction uids arbitrary: bots es)
  case Nil
  then show ?case by simp
next
  case (Cons uid uids)
  from stop_loop_step [OF Cons.prems] show ?case
  proof (elim disjE conjE exE)
    assume fresh: "stale ut bots uid = Inr False"
      and rec: "stop_loop env ut uids bots = Returned bots' es"
    from Cons.IH [OF rec] fresh show ?thesis by auto
  next
    fix thr gs
    assume st: "stale ut bots uid = Inr True"
      and rec: "stop_loop env ut uids (AList.delete uid bots) = Returned bots' gs"
    from Cons.IH [OF rec] st show ?thesis
      by (cases "k = uid") (auto simp: stale_delete_other AList.delete_conv')
  qed
qed

lemma start_loop_map_of:
  "start_loop items bots = (bots', es) \<Longrightarrow>
   map_of bots' k =
     (case map_of bots k of
        Some b \<Rightarrow> Some b
      | None \<Rightarrow> map_option (\<lambda>t. BotThread_init t k) (map_of items k))"
proof (induction items arbitrary: bots es)
  case Nil
  then show ?case by (auto split: option.splits)
next
  case (Cons item items)
  obtain uid tok where item: "item = (uid, tok)" by (cases item)
  show ?case
  proof (cases "map_of bots uid = None")
    case True
    with Cons.prems item obtain gs where
      rec: "start_loop items (AList.update uid (BotThread_init tok uid) bots) = (bots', gs)"
      by (auto split: prod.splits)
    from Cons.IH [OF rec] True item show ?thesis
      by (auto simp: AList.update_conv' split: option.splits)
  next
    case False
    with Cons.prems item have rec: "start_loop items bots = (bots', es)"
      by simp
    from Cons.IH [OF rec] False item show ?thesis
      by (auto split: option.splits)
  qed
qed

lemma update_bots_Returned:
  "update_bots env db bots = Returned bots' es \<longleftrightarrow>
   (\<exists>bots1 es1 es2.
      stop_loop env (user_tokens db) (map fst bots) bots = Returned bots1 es1 \<and>
      start_loop (user_tokens db) bots1 = (bots', es2) \<and>
      es = [SessionOpen] @ es1 @ es2 @ [SessionClose])"
  by (auto simp: update_bots_def Let_def split: result.splits prod.splits)

lemma map_of_keys: "map_of bots k \<noteq> None \<longleftrightarrow> k \<in> set (map fst bots)"
  by (simp add: map_of_eq_None_iff)

lemma update_bots_map_of:
  assumes "update_bots env db bots = Returned bots' es"
  shows "map_of bots' k =
     (case map_of bots k of
        Some b \<Rightarrow> if stale (user_tokens db) bots k = Inr True
                  then map_option (\<lambda>t. BotThread_init t k) (map_of (user_tokens db) k)
                  else Some b
      | None \<Rightarrow> map_option (\<lambda>t. BotThread_init t k) (map_of (user_tokens db) k))"
proof -
  from assms obtain bots1 es1 es2 where
    s1: "stop_loop env (user_tokens db) (map fst bots) bots = Returned bots1 es1" and
    s2: "start_loop (user_tokens db) bots1 = (bots', es2)"
    by (auto simp: update_bots_Returned)
  show ?thesis
    using stop_loop_map_of [OF s1, of k] start_loop_map_of [OF s2, of k] map_of_keys [of bots k]
    by (auto split: option.splits)
qed

lemma update_bots_invariant:
  assumes "update_bots env db bots = Returned bots' es"
  shows "fst ` set bots' = fst ` set (user_tokens db) \<and>
         (\<forall>uid thr. map_of bots' uid = Some thr \<longrightarrow>
            map_of (user_tokens db) uid = Some (token thr))"
proof -
  have dom_eq: "dom (map_of bots') = dom (map_of (user_tokens db))"
    using update_bots_map_of [OF assms]
    by (auto simp: dom_def stale_def split: option.splits if_splits)
  have toks: "\<forall>uid thr. map_of bots' uid = Some thr \<longrightarrow>
            map_of (user_tokens db) uid = Some (token thr)"
    using update_bots_map_of [OF assms]
    by (auto simp: stale_def BotThread_init_def split: option.splits if_splits)
  from dom_eq toks show ?thesis
    by (simp add: dom_map_of_conv_image_fst)
qed

lemma stopped_append: "stopped (es @ fs) = stopped es @ stopped fs"
  by (induction es rule: stopped.induct) auto

lemma started_append: "started (es @ fs) = started es @ started fs"
  by (induction es rule: started.induct) auto

lemma stopped_iff: "k \<in> set (stopped es) \<longleftrightarrow> ThreadStop k \<in> set es"
  by (induction es rule: stopped.induct) auto

lemma started_iff: "k \<in> set (started es) \<longleftrightarrow> (\<exists>tok. ThreadStart k tok \<in> set es)"
  by (induction es rule: started.induct) auto

lemma BotThread_stop_effects:
  "stopped (snd (BotThread_stop env thr)) = []"
  "started (snd (BotThread_stop env thr)) = []"
  "ThreadStart k tok \<notin> set (snd (BotThread_stop env thr))"
  by (auto simp: BotThread_stop_def Let_def)

lemma stop_loop_keys:
  "stop_loop env ut uids bots = Returned bots' es \<Longrightarrow> k \<in> set uids \<Longrightarrow> map_of bots k \<noteq> None"
proof (induction uids arbitrary: bots es)
  case Nil
  then show ?case by simp
next
  case (Cons uid uids)
  from stop_loop_step [OF Cons.prems(1)] show ?case
  proof (elim disjE conjE exE)
    assume fresh: "stale ut bots uid = Inr False"
      and rec: "stop_loop env ut uids bots = Returned bots' es"
    from fresh have "map_of bots uid \<noteq> None"
      by (auto simp: stale_def split: option.splits)
    with Cons.IH [OF rec] Cons.prems(2) show ?thesis by auto
  next
    fix thr gs
    assume here: "map_of bots uid = Some thr"
      and rec: "stop_loop env ut uids (AList.delete uid bots) = Returned bots' gs"
    show ?thesis
    proof (cases "k = uid")
      case True
      with here show ?thesis by simp
    next
      case False
      with Cons.prems(2) have "k \<in> set uids" by simp
      from Cons.IH [OF rec this] show ?thesis
        by (auto simp: AList.delete_conv' split: if_splits)
    qed
  qed
qed

lemma stop_loop_effects:
  "stop_loop env ut uids bots = Returned bots' es \<Longrightarrow>
   started es = [] \<and> stopped es = filter (\<lambda>k. stale ut bots k = Inr True) uids"
proof (induction uids arbitrary: bots es)
  case Nil
  then show ?case by simp
next
  case (Cons uid uids)
  from stop_loop_step [OF Cons.prems] show ?case
  proof (elim disjE conjE exE)
    assume fresh: "stale ut bots uid = Inr False"
      and rec: "stop_loop env ut uids bots = Returned bots' es"
    from Cons.IH [OF rec] fresh show ?thesis by simp
  next
    fix thr gs
    assume st: "stale ut bots uid = Inr True"
      and rec: "stop_loop env ut uids (AList.delete uid bots) = Returned bots' gs"
      and es: "es = [LoggerInfo (StoppingBot uid), ThreadStop uid] @ snd (BotThread_stop env thr)
                    @ [ThreadJoin uid] @ gs"
    have gone: "uid \<notin> set uids"
      using stop_loop_keys [OF rec, of uid] by (auto simp: AList.delete_conv')
    then have "stale ut (AList.delete uid bots) k = stale ut bots k" if "k \<in> set uids" for k
      using that stale_delete_other [of k uid ut bots] by blast
    then have same: "filter (\<lambda>k. stale ut (AList.delete uid bots) k = Inr True) uids
                   = filter (\<lambda>k. stale ut bots k = Inr True) uids"
      by (intro filter_cong) simp_all
    from Cons.IH [OF rec] st es same show ?thesis
      by (simp add: stopped_append started_append BotThread_stop_effects)
  qed
qed

lemma start_loop_effects:
  "start_loop items bots = (bots', es) \<Longrightarrow>
   stopped es = [] \<and>
   (ThreadStart k tok \<in> set es \<longleftrightarrow> map_of bots k = None \<and> map_of items k = Some tok)"
proof (induction items arbitrary: bots es)
  case Nil
  then show ?case by auto
next
  case (Cons item items)
  obtain uid t where item: "item = (uid, t)" by (cases item)
  show ?case
  proof (cases "map_of bots uid = None")
    case True
    with Cons.prems item obtain gs where
      rec: "start_loop items (AList.update uid (BotThread_init t uid) bots) = (bots', gs)"
      and es: "es = [LoggerInfo (StartingBot uid), ThreadStart uid t] @ gs"
      by (auto split: prod.splits)
    from Cons.IH [OF rec] True item es show ?thesis
      by (auto simp: AList.update_conv')
  next
    case False
    with Cons.prems item have rec: "start_loop items bots = (bots', es)"
      by simp
    from Cons.IH [OF rec] False item show ?thesis
      by auto
  qed
qed

lemma started_none_iff: "started es = [] \<longleftrightarrow> (\<forall>k tok. ThreadStart k tok \<notin> set es)"
  using started_iff [of _ es] by (metis ex_in_conv set_empty)

lemma update_bots_effects:
  assumes "update_bots env db bots = Returned bots' es"
  shows "stopped es = filter (\<lambda>k. stale (user_tokens db) bots k = Inr True) (map fst bots)"
    and "ThreadStart k tok \<in> set es \<longleftrightarrow>
           map_of (user_tokens db) k = Some tok \<and>
           (map_of bots k = None \<or> stale (user_tokens db) bots k = Inr True)"
proof -
  from assms obtain bots1 es1 es2 where
    s1: "stop_loop env (user_tokens db) (map fst bots) bots = Returned bots1 es1" and
    s2: "start_loop (user_tokens db) bots1 = (bots', es2)" and
    es: "es = [SessionOpen] @ es1 @ es2 @ [SessionClose]"
    by (auto simp: update_bots_Returned)
  from stop_loop_effects [OF s1] start_loop_effects [OF s2, of k tok] es
  show "stopped es = filter (\<lambda>k. stale (user_tokens db) bots k = Inr True) (map fst bots)"
    by (simp add: stopped_append)
  have no_start: "ThreadStart k tok \<notin> set es1"
    using stop_loop_effects [OF s1] by (simp add: started_none_iff)
  have "map_of bots1 k = None \<longleftrightarrow>
          map_of bots k = None \<or> stale (user_tokens db) bots k = Inr True"
    using stop_loop_map_of [OF s1, of k] map_of_keys [of bots k] by (auto split: if_splits)
  with start_loop_effects [OF s2, of k tok] es no_start
  show "ThreadStart k tok \<in> set es \<longleftrightarrow>
           map_of (user_tokens db) k = Some tok \<and>
           (map_of bots k = None \<or> stale (user_tokens db) bots k = Inr True)"
    by auto
qed

lemma stop_loop_fresh:
  "\<forall>k\<in>set uids. stale ut bots k = Inr False \<Longrightarrow> stop_loop env ut uids bots = Returned bots []"
  by (induction uids) auto

lemma start_loop_present:
  "\<forall>k\<in>fst ` set items. map_of bots k \<noteq> None \<Longrightarrow> start_loop items bots = (bots, [])"
  by (induction items) auto

lemma after_Blocked:
  "after es r = Blocked bots' fs \<longleftrightarrow> (\<exists>gs. r = Blocked bots' gs \<and> fs = es @ gs)"
  by (cases r) auto

lemma stale_present:
  "map_of bots uid = Some thr \<Longrightarrow>
   stale ut bots uid = Inr (case map_of ut uid of None \<Rightarrow> True | Some t \<Rightarrow> token thr \<noteq> t)"
  by (simp add: stale_def split: option.splits)

lemma stale_delete_tail:
  "uid \<notin> set uids \<Longrightarrow> k \<in> set uids \<Longrightarrow>
   stale ut (AList.delete uid bots) k = stale ut bots k"
  using stale_delete_other [of k uid ut bots] by blast

lemma stop_loop_returns:
  "distinct uids \<Longrightarrow> \<forall>k\<in>set uids. map_of bots k \<noteq> None \<Longrightarrow>
   \<forall>k\<in>set uids. stale ut bots k = Inr True \<longrightarrow> thread_finishes env k \<Longrightarrow>
   \<exists>bots' es. stop_loop env ut uids bots = Returned bots' es"
proof (induction uids arbitrary: bots)
  case Nil
  then show ?case by simp
next
  case (Cons uid uids)
  from Cons.prems obtain thr where thr: "map_of bots uid = Some thr" by auto
  from stale_present [OF this] obtain b where b: "stale ut bots uid = Inr b"
    by blast
  show ?case
  proof (cases b)
    case False
    with b Cons show ?thesis by simp
  next
    case True
    have keys: "\<forall>k\<in>set uids. map_of (AList.delete uid bots) k \<noteq> None"
      using Cons.prems(1,2) by (auto simp: AList.delete_conv')
    have fin: "\<forall>k\<in>set uids. stale ut (AList.delete uid bots) k = Inr True \<longrightarrow> thread_finishes env k"
      using Cons.prems(1,3) by (auto simp: stale_delete_tail)
    from Cons.prems(1) have "distinct uids" by simp
    from Cons.IH [OF this keys fin] obtain bots' gs where
      "stop_loop env ut uids (AList.delete uid bots) = Returned bots' gs" by blast
    with True b thr Cons.prems(3) show ?thesis by (simp add: Let_def)
  qed
qed

lemma stop_loop_blocks:
  "distinct uids \<Longrightarrow> \<forall>k\<in>set uids. map_of bots k \<noteq> None \<Longrightarrow>
   \<exists>k\<in>set uids. stale ut bots k = Inr True \<and> \<not> thread_finishes env k \<Longrightarrow>
   \<exists>held es. stop_loop env ut uids bots = Blocked held es"
proof (induction uids arbitrary: bots)
  case Nil
  then show ?case by simp
next
  case (Cons uid uids)
  from Cons.prems obtain thr where thr: "map_of bots uid = Some thr" by auto
  from stale_present [OF this] obtain b where b: "stale ut bots uid = Inr b"
    by blast
  show ?case
  proof (cases "b \<and> \<not> thread_finishes env uid")
    case True
    with b thr show ?thesis by (simp add: Let_def)
  next
    case False
    with Cons.prems(3) b obtain k where k: "k \<in> set uids" "stale ut bots k = Inr True"
      "\<not> thread_finishes env k" by auto
    from Cons.prems(1) have d: "distinct uids" by simp
    show ?thesis
    proof (cases b)
      case False
      from Cons.IH [OF d, of bots] Cons.prems(2) k obtain held es where
        "stop_loop env ut uids bots = Blocked held es" by auto
      with False b show ?thesis by simp
    next
      case True
      have keys: "\<forall>k\<in>set uids. map_of (AList.delete uid bots) k \<noteq> None"
        using Cons.prems(1,2) by (auto simp: AList.delete_conv')
      have "\<exists>k\<in>set uids. stale ut (AList.delete uid bots) k = Inr True \<and> \<not> thread_finishes env k"
        using k Cons.prems(1) by (auto simp: stale_delete_tail)
      from Cons.IH [OF d keys this] obtain held es where
        "stop_loop env ut uids (AList.delete uid bots) = Blocked held es" by blast
      with True b thr \<open>\<not> (b \<and> \<not> thread_finishes env uid)\<close> show ?thesis
        by (simp add: Let_def)
    qed
  qed
qed

lemma registry_keys: "\<forall>k\<in>set (map fst bots). map_of bots k \<noteq> None"
  using map_of_keys [of bots] by blast

lemma update_bots_returns:
  assumes "distinct (map fst bots)"
    and "\<forall>k\<in>fst ` set bots. stale (user_tokens db) bots k = Inr True \<longrightarrow> thread_finishes env k"
  shows "\<exists>bots' es. update_bots env db bots = Returned bots' es"
proof -
  from assms(2) have "\<forall>k\<in>set (map fst bots).
      stale (user_tokens db) bots k = Inr True \<longrightarrow> thread_finishes env k" by simp
  from stop_loop_returns [OF assms(1) registry_keys this]
  obtain bots1 es1 where "stop_loop env (user_tokens db) (map fst bots) bots = Returned bots1 es1"
    by blast
  then show ?thesis
    by (simp add: update_bots_def Let_def split: prod.splits)
qed

lemma update_bots_blocks:
  assumes "distinct (map fst bots)"
    and "\<exists>k\<in>fst ` set bots. stale (user_tokens db) bots k = Inr True \<and> \<not> thread_finishes env k"
  shows "\<exists>held es. update_bots env db bots = Blocked held es"
proof -
  from assms(2) have "\<exists>k\<in>set (map fst bots).
      stale (user_tokens db) bots k = Inr True \<and> \<not> thread_finishes env k" by simp
  from stop_loop_blocks [OF assms(1) registry_keys this]
  obtain held es1 where
    "stop_loop env (user_tokens db) (map fst bots) bots = Blocked held es1"
    by blast
  then show ?thesis
    by (simp add: update_bots_def Let_def)
qed

lemma BotThread_stop_eq:
  "BotThread_stop env thr =
     (thr\<lparr>running := False\<rparr>,
      if application thr \<noteq> None \<and> loop thr = Some LoopRunning
      then if stop_completes env (user_id thr)
           then [AppStop (user_id thr), AppShutdown (user_id thr)]
           else [LoggerError (StopBotFailed (user_id thr))]
      else [])"
  by (auto simp: BotThread_stop_def Let_def)

lemma BotThread_stop_no_join: "ThreadJoin k \<notin> set (snd (BotThread_stop env thr))"
  by (simp add: BotThread_stop_eq)

lemma stop_loop_trace:
  "stop_loop env ut uids bots = Returned bots' es \<Longrightarrow> k \<in> set uids \<Longrightarrow>
   stale ut bots k = Inr True \<Longrightarrow> map_of bots k = Some thr \<Longrightarrow>
   \<exists>pre post. es = pre @ [LoggerInfo (StoppingBot k), ThreadStop k] @
                      snd (BotThread_stop env thr) @ [ThreadJoin k] @ post"
proof (induction uids arbitrary: bots es)
  case Nil
  then show ?case by simp
next
  case (Cons uid uids)
  from stop_loop_step [OF Cons.prems(1)] show ?case
  proof (elim disjE conjE exE)
    assume fresh: "stale ut bots uid = Inr False"
      and rec: "stop_loop env ut uids bots = Returned bots' es"
    from fresh Cons.prems(2,3) have "k \<in> set uids" by auto
    from Cons.IH [OF rec this Cons.prems(3,4)] show ?thesis .
  next
    fix thr0 gs
    assume here: "map_of bots uid = Some thr0"
      and rec: "stop_loop env ut uids (AList.delete uid bots) = Returned bots' gs"
      and es: "es = [LoggerInfo (StoppingBot uid), ThreadStop uid] @ snd (BotThread_stop env thr0)
                    @ [ThreadJoin uid] @ gs"
    show ?thesis
    proof (cases "k = uid")
      case True
      with here Cons.prems(4) have "thr0 = thr" by simp
      with es True have "es = [] @ [LoggerInfo (StoppingBot k), ThreadStop k] @
                      snd (BotThread_stop env thr) @ [ThreadJoin k] @ gs" by simp
      then show ?thesis by blast
    next
      case False
      with Cons.prems(2) have k: "k \<in> set uids" by simp
      from False Cons.prems(3) have st: "stale ut (AList.delete uid bots) k = Inr True"
        by (simp add: stale_delete_other)
      from False Cons.prems(4) have "map_of (AList.delete uid bots) k = Some thr"
        by (simp add: AList.delete_conv')
      from Cons.IH [OF rec k st this] obtain pre post where
        "gs = pre @ [LoggerInfo (StoppingBot k), ThreadStop k] @
                      snd (BotThread_stop env thr) @ [ThreadJoin k] @ post" by blast
      with es have "es = ([LoggerInfo (StoppingBot uid), ThreadStop uid] @
            snd (BotThread_stop env thr0) @ [ThreadJoin uid] @ pre) @
            [LoggerInfo (StoppingBot k), ThreadStop k] @
            snd (BotThread_stop env thr) @ [ThreadJoin k] @ post" by simp
      then show ?thesis by blast
    qed
  qed
qed

lemma stop_loop_Blocked_step:
  assumes "stop_loop env ut (uid # uids) bots = Blocked held es"
  shows "(stale ut bots uid = Inr False \<and> stop_loop env ut uids bots = Blocked held es) \<or>
         (stale ut bots uid = Inr True \<and>
          (\<exists>thr. map_of bots uid = Some thr \<and>
            ((\<not> thread_finishes env uid \<and>
              held = AList.update uid (fst (BotThread_stop env thr)) bots \<and>
              es = [LoggerInfo (StoppingBot uid), ThreadStop uid] @ snd (BotThread_stop env thr)) \<or>
             (thread_finishes env uid \<and>
              (\<exists>gs. stop_loop env ut uids (AList.delete uid bots) = Blocked held gs \<and>
                 es = [LoggerInfo (StoppingBot uid), ThreadStop uid] @
                      snd (BotThread_stop env thr) @ [ThreadJoin uid] @ gs)))))"
  using assms
  by (auto simp: after_Blocked Let_def split: sum.splits bool.splits option.splits if_splits)

lemma stop_loop_blocked_at:
  "stop_loop env ut uids bots = Blocked held es \<Longrightarrow>
   \<exists>k thr pre. k \<in> set uids \<and> map_of bots k = Some thr \<and> stale ut bots k = Inr True \<and>
      \<not> thread_finishes env k \<and>
      es = pre @ [LoggerInfo (StoppingBot k), ThreadStop k] @ snd (BotThread_stop env thr) \<and>
      ThreadJoin k \<notin> set es \<and>
      map_of held k = Some (fst (BotThread_stop env thr))"
proof (induction uids arbitrary: bots es)
  case Nil
  then show ?case by simp
next
  case (Cons uid uids)
  from stop_loop_Blocked_step [OF Cons.prems] show ?case
  proof (elim disjE conjE exE)
    assume "stale ut bots uid = Inr False"
      and rec: "stop_loop env ut uids bots = Blocked held es"
    from Cons.IH [OF rec] show ?thesis by auto
  next
    fix thr
    assume st: "stale ut bots uid = Inr True" and here: "map_of bots uid = Some thr"
      and hang: "\<not> thread_finishes env uid"
      and held: "held = AList.update uid (fst (BotThread_stop env thr)) bots"
      and es: "es = [LoggerInfo (StoppingBot uid), ThreadStop uid] @ snd (BotThread_stop env thr)"
    have "es = [] @ [LoggerInfo (StoppingBot uid), ThreadStop uid] @ snd (BotThread_stop env thr)"
      using es by simp
    moreover have "ThreadJoin uid \<notin> set es"
      using es by (simp add: BotThread_stop_no_join)
    moreover have "map_of held uid = Some (fst (BotThread_stop env thr))"
      using held by (simp add: AList.update_conv')
    ultimately show ?thesis using st here hang by (intro exI [of _ uid]) auto
  next
    fix thr gs
    assume here: "map_of bots uid = Some thr"
      and rec: "stop_loop env ut uids (AList.delete uid bots) = Blocked held gs"
      and es: "es = [LoggerInfo (StoppingBot uid), ThreadStop uid] @
                      snd (BotThread_stop env thr) @ [ThreadJoin uid] @ gs"
    from Cons.IH [OF rec] obtain k thr' pre where
      k: "k \<in> set uids" and thr': "map_of (AList.delete uid bots) k = Some thr'"
      and st: "stale ut (AList.delete uid bots) k = Inr True"
      and hang: "\<not> thread_finishes env k"
      and gs: "gs = pre @ [LoggerInfo (StoppingBot k), ThreadStop k] @ snd (BotThread_stop env thr')"
      and nj: "ThreadJoin k \<notin> set gs"
      and held: "map_of held k = Some (fst (BotThread_stop env thr'))"
      by blast
    from thr' have ne: "k \<noteq> uid" and orig: "map_of bots k = Some thr'"
      by (auto simp: AList.delete_conv' split: if_splits)
    from st ne have st': "stale ut bots k = Inr True"
      by (simp add: stale_delete_other)
    have shape: "es = ([LoggerInfo (StoppingBot uid), ThreadStop uid] @
            snd (BotThread_stop env thr) @ [ThreadJoin uid] @ pre) @
            [LoggerInfo (StoppingBot k), ThreadStop k] @ snd (BotThread_stop env thr')"
      using es gs by simp
    have nj': "ThreadJoin k \<notin> set es"
      using es nj ne by (simp add: BotThread_stop_no_join)
    from k orig st' hang shape nj' held show ?thesis
      by (intro exI [of _ k] exI [of _ thr'] exI) auto
  qed
qed

lemma update_bots_Blocked:
  "update_bots env db bots = Blocked held es \<longleftrightarrow>
   (\<exists>es1. stop_loop env (user_tokens db) (map fst bots) bots = Blocked held es1 \<and>
          es = [SessionOpen] @ es1)"
  by (auto simp: update_bots_def Let_def split: result.splits prod.splits)

lemma stop_loop_distinct:
  "stop_loop env ut uids bots = Returned bots' es \<Longrightarrow> distinct (map fst bots) \<Longrightarrow>
   distinct (map fst bots')"
proof (induction uids arbitrary: bots es)
  case Nil
  then show ?case by simp
next
  case (Cons uid uids)
  from stop_loop_step [OF Cons.prems(1)] show ?case
  proof (elim disjE conjE exE)
    assume "stop_loop env ut uids bots = Returned bots' es"
    from Cons.IH [OF this Cons.prems(2)] show ?thesis .
  next
    fix thr gs
    assume rec: "stop_loop env ut uids (AList.delete uid bots) = Returned bots' gs"
    from Cons.IH [OF rec] Cons.prems(2) show ?thesis
      by (simp add: AList.distinct_delete)
  qed
qed

lemma start_loop_distinct:
  "start_loop items bots = (bots', es) \<Longrightarrow> distinct (map fst bots) \<Longrightarrow>
   distinct (map fst bots')"
proof (induction items arbitrary: bots es)
  case Nil
  then show ?case by simp
next
  case (Cons item items)
  obtain uid t where item: "item = (uid, t)" by (cases item)
  show ?case
  proof (cases "map_of bots uid = None")
    case True
    with Cons.prems(1) item obtain gs where
      rec: "start_loop items (AList.update uid (BotThread_init t uid) bots) = (bots', gs)"
      by (auto split: prod.splits)
    from Cons.IH [OF rec] Cons.prems(2) show ?thesis
      by (simp add: AList.distinct_update)
  next
    case False
    with Cons.prems(1) item have "start_loop items bots = (bots', es)" by simp
    from Cons.IH [OF this Cons.prems(2)] show ?thesis .
  qed
qed

lemma update_bots_distinct:
  assumes "update_bots env db bots = Returned bots' es" and "distinct (map fst bots)"
  shows "distinct (map fst bots')"
proof -
  from assms(1) obtain bots1 es1 es2 where
    s1: "stop_loop env (user_tokens db) (map fst bots) bots = Returned bots1 es1" and
    s2: "start_loop (user_tokens db) bots1 = (bots', es2)"
    by (auto simp: update_bots_Returned)
  from start_loop_distinct [OF s2 stop_loop_distinct [OF s1 assms(2)]] show ?thesis .
qed

lemma stop_loop_joins:
  "stop_loop env ut uids bots = Returned bots' es \<Longrightarrow> k \<in> set uids \<Longrightarrow>
   stale ut bots k = Inr True \<Longrightarrow> ThreadJoin k \<in> set es"
proof (induction uids arbitrary: bots es)
  case Nil
  then show ?case by simp
next
  case (Cons uid uids)
  from stop_loop_step [OF Cons.prems(1)] show ?case
  proof (elim disjE conjE exE)
    assume fresh: "stale ut bots uid = Inr False"
      and rec: "stop_loop env ut uids bots = Returned bots' es"
    from fresh Cons.prems(2,3) have "k \<in> set uids" by auto
    from Cons.IH [OF rec this Cons.prems(3)] show ?thesis .
  next
    fix thr gs
    assume rec: "stop_loop env ut uids (AList.delete uid bots) = Returned bots' gs"
      and es: "es = [LoggerInfo (StoppingBot uid), ThreadStop uid] @ snd (BotThread_stop env thr)
                    @ [ThreadJoin uid] @ gs"
    show ?thesis
    proof (cases "k = uid")
      case True
      with es show ?thesis by simp
    next
      case False
      with Cons.prems(2) have k: "k \<in> set uids" by simp
      from False Cons.prems(3) have "stale ut (AList.delete uid bots) k = Inr True"
        by (simp add: stale_delete_other)
      from Cons.IH [OF rec k this] es show ?thesis by simp
    qed
  qed
qed

lemma update_bots_joins:
  assumes "update_bots env db bots = Returned bots' es"
    and "k \<in> fst ` set bots" and "stale (user_tokens db) bots k = Inr True"
  shows "ThreadJoin k \<in> set es"
proof -
  from assms(1) obtain bots1 es1 es2 where
    s1: "stop_loop env (user_tokens db) (map fst bots) bots = Returned bots1 es1" and
    es: "es = [SessionOpen] @ es1 @ es2 @ [SessionClose]"
    by (auto simp: update_bots_Returned)
  from assms(2) have "k \<in> set (map fst bots)" by simp
  from stop_loop_joins [OF s1 this assms(3)] es show ?thesis by simp
qed

lemma BotThread_run_token:
  "BotThread_run outcome thr = Some (thr', es) \<Longrightarrow>
   token thr' = token thr \<and> user_id thr' = user_id thr \<and>
   loop thr' = Some LoopClosed \<and> es = [LoggerError (BotFailed (user_id thr))]"
  by (auto simp: BotThread_run_def Let_def split: run_outcome.splits)

lemma BotManager_run_timeline:
  "BotManager_run cs now bots = (timeline, Some bots') \<Longrightarrow>
   length timeline = length cs \<and>
   (timeline \<noteq> [] \<longrightarrow> fst (hd timeline) = now) \<and>
   (\<forall>i<length timeline. snd (timeline ! i) = fst (timeline ! i) + duration (cs ! i)) \<and>
   (\<forall>i. Suc i < length timeline \<longrightarrow> fst (timeline ! Suc i) = snd (timeline ! i) + 10)"
proof (induction cs arbitrary: now bots timeline)
  case Nil
  then show ?case by simp
next
  case (Cons c cs)
  from Cons.prems obtain bots1 es rest where
    ret: "update_bots (threads c) (snapshot c) bots = Returned bots1 es" and
    rec: "BotManager_run cs (now + duration c + 10) bots1 = (rest, Some bots')" and
    tl: "timeline = (now, now + duration c) # rest"
    by (auto simp: Let_def split: result.splits prod.splits)
  note IH = Cons.IH [OF rec]
  have len: "length timeline = length (c # cs)" using IH tl by simp
  have first: "timeline \<noteq> [] \<longrightarrow> fst (hd timeline) = now" using tl by simp
  have dur: "\<forall>i<length timeline. snd (timeline ! i) = fst (timeline ! i) + duration ((c # cs) ! i)"
  proof (intro allI impI)
    fix i assume "i < length timeline"
    with IH tl show "snd (timeline ! i) = fst (timeline ! i) + duration ((c # cs) ! i)"
      by (cases i) auto
  qed
  have gap: "\<forall>i. Suc i < length timeline \<longrightarrow> fst (timeline ! Suc i) = snd (timeline ! i) + 10"
  proof (intro allI impI)
    fix i assume i: "Suc i < length timeline"
    show "fst (timeline ! Suc i) = snd (timeline ! i) + 10"
    proof (cases i)
      case 0
      with i tl have "rest \<noteq> []" by auto
      with IH have "fst (hd rest) = now + duration c + 10" by simp
      with 0 tl \<open>rest \<noteq> []\<close> show ?thesis by (simp add: hd_conv_nth)
    next
      case (Suc j)
      with i tl IH show ?thesis by simp
    qed
  qed
  from len first dur gap show ?case by blast
qed

lemma BotManager_run_goes_on:
  "\<forall>c\<in>set cs. \<forall>uid. thread_finishes (threads c) uid \<Longrightarrow> distinct (map fst bots) \<Longrightarrow>
   \<exists>timeline bots'. BotManager_run cs now bots = (timeline, Some bots')"
proof (induction cs arbitrary: now bots)
  case Nil
  then show ?case by simp
next
  case (Cons c cs)
  from Cons.prems have "\<forall>k\<in>fst ` set bots.
      stale (user_tokens (snapshot c)) bots k = Inr True \<longrightarrow> thread_finishes (threads c) k"
    by simp
  from update_bots_returns [OF Cons.prems(2) this] obtain bots1 es where
    ret: "update_bots (threads c) (snapshot c) bots = Returned bots1 es" by blast
  from update_bots_distinct [OF ret Cons.prems(2)] have d: "distinct (map fst bots1)" .
  from Cons.prems(1) have "\<forall>c\<in>set cs. \<forall>uid. thread_finishes (threads c) uid" by simp
  from Cons.IH [OF this d, of "now + duration c + 10"] obtain rest bots' where
    "BotManager_run cs (now + duration c + 10) bots1 = (rest, Some bots')" by blast
  with ret show ?case by (simp add: Let_def)
qed

section \<open>Lemmas on the message handler\<close>

lemma handle_message_text:
  assumes "message upd = Some m" and "message_text m = Some txt" and "txt \<noteq> []"
  shows "handle_message db http self upd =
     (case find (\<lambda>u. id_user u = user_id self) db of
        None \<Rightarrow>
          HandlerReturned [SessionOpen, ReplyText (JStr PROMPT_NOT_CONFIGURED_REPLY), SessionClose]
      | Some user \<Rightarrow>
          (case system_prompt user of
             None \<Rightarrow>
               HandlerReturned
                 [SessionOpen, ReplyText (JStr PROMPT_NOT_CONFIGURED_REPLY), SessionClose]
           | Some sp \<Rightarrow>
               (case fst (get_yandex_gpt_response http txt sp) of
                  None \<Rightarrow> HandlerBlocked ([SessionOpen] @ snd (get_yandex_gpt_response http txt sp))
                | Some response \<Rightarrow>
                    HandlerReturned
                      ([SessionOpen] @ snd (get_yandex_gpt_response http txt sp) @
                       [ReplyText response, SessionClose]))))"
  using assms by (simp add: handle_message_def split: option.splits prod.splits)

lemma get_yandex_gpt_response_effects:
  "completion_calls (snd (get_yandex_gpt_response http txt sp)) = [(txt, sp)]"
  "replies (snd (get_yandex_gpt_response http txt sp)) = []"
  by (simp_all add: get_yandex_gpt_response_def split: option.splits sum.splits)

lemma get_yandex_gpt_response_returns:
  "fst (get_yandex_gpt_response http txt sp) = None \<longleftrightarrow> http = PostNeverReturns"
  by (simp add: get_yandex_gpt_response_def completion_body_def
        split: option.splits sum.splits post_outcome.splits)

lemma completion_calls_append:
  "completion_calls (es @ fs) = completion_calls es @ completion_calls fs"
  by (induction es rule: completion_calls.induct) auto

lemma replies_append: "replies (es @ fs) = replies es @ replies fs"
  by (induction es rule: replies.induct) auto

lemma response_text_path:
  "\<not> (400 \<le> status \<and> status < 600) \<Longrightarrow>
   response_text status (Some j) =
     (case getitem_key j ''result'' of
        Inl e \<Rightarrow> Inl e
      | Inr r \<Rightarrow>
          (case getitem_key r ''alternatives'' of
             Inl e \<Rightarrow> Inl e
           | Inr alts \<Rightarrow>
               (case getitem_0 alts of
                  Inl e \<Rightarrow> Inl e
                | Inr alt \<Rightarrow>
                    (case getitem_key alt ''message'' of
                       Inl e \<Rightarrow> Inl e
                     | Inr msg \<Rightarrow> getitem_key msg ''text''))))"
  by (auto simp: response_text_def)

section \<open>The reconciliation cycle\<close>

text \<open>
  C1. After \<^verbatim>\<open>update_bots\<close> returns, the keys of the registry are exactly the keys of
  the desired state \<^verbatim>\<open>user_tokens\<close> read in that cycle, and every worker in the
  registry carries the desired token of its tenant.
\<close>

theorem update_bots_registry_matches_desired:
  assumes "update_bots env db bots = Returned bots' es"
  shows "fst ` set bots' = fst ` set (user_tokens db) \<and>
         (\<forall>uid thr. map_of bots' uid = Some thr \<longrightarrow>
            map_of (user_tokens db) uid = Some (token thr))"
  using update_bots_invariant [OF assms] .

theorem update_bots_registry_matches_desired_witness:
  "update_bots threads_finish
     [tenant 1 (Some ''tok2'') None, tenant 2 (Some ''tokA'') None, tenant 4 None None]
     [worker 1 ''tok1'', worker 3 ''tokC'']
   = Returned [worker 1 ''tok2'', worker 2 ''tokA'']
       [SessionOpen, LoggerInfo (StoppingBot 1), ThreadStop 1, ThreadJoin 1,
        LoggerInfo (StoppingBot 3), ThreadStop 3, ThreadJoin 3,
        LoggerInfo (StartingBot 1), ThreadStart 1 ''tok2'',
        LoggerInfo (StartingBot 2), ThreadStart 2 ''tokA'', SessionClose] \<and>
   fst ` set [worker 1 ''tok2'', worker 2 ''tokA'']
     = fst ` set (user_tokens
         [tenant 1 (Some ''tok2'') None, tenant 2 (Some ''tokA'') None, tenant 4 None None]) \<and>
   map_of (user_tokens
         [tenant 1 (Some ''tok2'') None, tenant 2 (Some ''tokA'') None, tenant 4 None None]) (2::int)
     = Some (token (BotThread_init ''tokA'' 2))"
proof -
  have run: "update_bots threads_finish
     [tenant 1 (Some ''tok2'') None, tenant 2 (Some ''tokA'') None, tenant 4 None None]
     [worker 1 ''tok1'', worker 3 ''tokC'']
   = Returned [worker 1 ''tok2'', worker 2 ''tokA'']
       [SessionOpen, LoggerInfo (StoppingBot 1), ThreadStop 1, ThreadJoin 1,
        LoggerInfo (StoppingBot 3), ThreadStop 3, ThreadJoin 3,
        LoggerInfo (StartingBot 1), ThreadStart 1 ''tok2'',
        LoggerInfo (StartingBot 2), ThreadStart 2 ''tokA'', SessionClose]"
    by code_simp
  have entry: "map_of [worker 1 ''tok2'', worker 2 ''tokA''] (2::int)
        = Some (BotThread_init ''tokA'' 2)"
    by (simp add: worker_def)
  from update_bots_registry_matches_desired [OF run] run entry show ?thesis
    by blast
qed

text \<open>
  C4. When \<^verbatim>\<open>update_bots\<close> has returned and is run again on the registry it left, with
  a desired state that has not changed, the second run returns the registry as it is
  and starts and stops no worker.
\<close>

theorem update_bots_idempotent:
  assumes "update_bots env db bots = Returned bots' es"
    and "user_tokens db' = user_tokens db"
  shows "\<exists>es'. update_bots env' db' bots' = Returned bots' es' \<and>
               started es' = [] \<and> stopped es' = []"
proof -
  note inv = update_bots_invariant [OF assms(1)]
  have fresh: "\<forall>k\<in>set (map fst bots'). stale (user_tokens db) bots' k = Inr False"
  proof
    fix k assume "k \<in> set (map fst bots')"
    then obtain thr where thr: "map_of bots' k = Some thr"
      using map_of_keys [of bots' k] by auto
    with inv have "map_of (user_tokens db) k = Some (token thr)" by blast
    with thr show "stale (user_tokens db) bots' k = Inr False"
      by (simp add: stale_def)
  qed
  have present: "\<forall>k\<in>fst ` set (user_tokens db). map_of bots' k \<noteq> None"
    using inv map_of_keys [of bots'] by auto
  have "update_bots env' db' bots' = Returned bots' [SessionOpen, SessionClose]"
    by (simp add: update_bots_def assms(2) stop_loop_fresh [OF fresh]
          start_loop_present [OF present])
  then show ?thesis by simp
qed

theorem update_bots_idempotent_witness:
  "update_bots threads_finish
     [tenant 1 (Some ''tok2'') None, tenant 2 (Some ''tokA'') None]
     [worker 1 ''tok1'', worker 3 ''tokC'']
   = Returned [worker 1 ''tok2'', worker 2 ''tokA'']
       [SessionOpen, LoggerInfo (StoppingBot 1), ThreadStop 1, ThreadJoin 1,
        LoggerInfo (StoppingBot 3), ThreadStop 3, ThreadJoin 3,
        LoggerInfo (StartingBot 1), ThreadStart 1 ''tok2'',
        LoggerInfo (StartingBot 2), ThreadStart 2 ''tokA'', SessionClose] \<and>
   (\<exists>es'. update_bots threads_hang
       [tenant 1 (Some ''tok2'') None, tenant 2 (Some ''tokA'') None]
       [worker 1 ''tok2'', worker 2 ''tokA'']
     = Returned [worker 1 ''tok2'', worker 2 ''tokA''] es' \<and>
     started es' = [] \<and> stopped es' = [])"
proof -
  have run: "update_bots threads_finish
     [tenant 1 (Some ''tok2'') None, tenant 2 (Some ''tokA'') None]
     [worker 1 ''tok1'', worker 3 ''tokC'']
   = Returned [worker 1 ''tok2'', worker 2 ''tokA'']
       [SessionOpen, LoggerInfo (StoppingBot 1), ThreadStop 1, ThreadJoin 1,
        LoggerInfo (StoppingBot 3), ThreadStop 3, ThreadJoin 3,
        LoggerInfo (StartingBot 1), ThreadStart 1 ''tok2'',
        LoggerInfo (StartingBot 2), ThreadStart 2 ''tokA'', SessionClose]"
    by code_simp
  from update_bots_idempotent [OF run refl, of threads_hang] run show ?thesis
    by blast
qed

text \<open>
  C5, as the code has it. A tenant that has a worker in the registry and is absent from
  the desired state read by a cycle: the cycle returns when the registry has one entry
  per key and the thread of every stale worker finishes, and whenever the cycle returns
  it has called \<^verbatim>\<open>stop\<close> on the tenant's worker and the registry no longer contains
  the tenant.
\<close>

theorem update_bots_removes_absent_tenant:
  assumes "map_of bots T = Some thr" and "map_of (user_tokens db) T = None"
  shows "(distinct (map fst bots) \<and>
          (\<forall>k\<in>fst ` set bots. stale (user_tokens db) bots k = Inr True \<longrightarrow> thread_finishes env k)
            \<longrightarrow> (\<exists>bots' es. update_bots env db bots = Returned bots' es)) \<and>
         (\<forall>bots' es. update_bots env db bots = Returned bots' es \<longrightarrow>
            T \<in> set (stopped es) \<and> T \<notin> fst ` set bots')"
proof (intro conjI impI allI)
  assume "distinct (map fst bots) \<and>
          (\<forall>k\<in>fst ` set bots. stale (user_tokens db) bots k = Inr True \<longrightarrow> thread_finishes env k)"
  then show "\<exists>bots' es. update_bots env db bots = Returned bots' es"
    using update_bots_returns by blast
next
  fix bots' es
  assume ret: "update_bots env db bots = Returned bots' es"
  have st: "stale (user_tokens db) bots T = Inr True"
    using assms(2) by (simp add: stale_def)
  have key: "T \<in> set (map fst bots)"
    using assms(1) map_of_keys [of bots T] by simp
  from update_bots_effects(1) [OF ret] st key show "T \<in> set (stopped es)" by simp
  from update_bots_invariant [OF ret] assms(2)
  show "T \<notin> fst ` set bots'"
    by (metis domIff dom_map_of_conv_image_fst)
qed

theorem update_bots_removes_absent_tenant_witness:
  "map_of [worker 1 ''tok1'', worker 3 ''tokC''] (3::int)
     = Some (BotThread_init ''tokC'' 3) \<and>
   map_of (user_tokens [tenant 1 (Some ''tok1'') None]) (3::int) = None \<and>
   update_bots threads_finish [tenant 1 (Some ''tok1'') None]
     [worker 1 ''tok1'', worker 3 ''tokC'']
   = Returned [worker 1 ''tok1'']
       [SessionOpen, LoggerInfo (StoppingBot 3), ThreadStop 3, ThreadJoin 3, SessionClose] \<and>
   (3::int) \<in> set (stopped
       [SessionOpen, LoggerInfo (StoppingBot 3), ThreadStop 3, ThreadJoin 3, SessionClose]) \<and>
   (3::int) \<notin> fst ` set [worker 1 ''tok1'']"
proof -
  have entry: "map_of [worker 1 ''tok1'', worker 3 ''tokC''] (3::int)
     = Some (BotThread_init ''tokC'' 3)"
    by (simp add: worker_def)
  have absent: "map_of (user_tokens [tenant 1 (Some ''tok1'') None]) (3::int) = None"
    by code_simp
  have run: "update_bots threads_finish [tenant 1 (Some ''tok1'') None]
     [worker 1 ''tok1'', worker 3 ''tokC'']
   = Returned [worker 1 ''tok1'']
       [SessionOpen, LoggerInfo (StoppingBot 3), ThreadStop 3, ThreadJoin 3, SessionClose]"
    by code_simp
  from update_bots_removes_absent_tenant [OF entry absent, of threads_finish] entry absent run
  show ?thesis by blast
qed

text \<open>
  C5, as the specification states it, fails: tenant 3 has a polling worker and is not
  desired, stopping its application raises and its thread never finishes; the cycle
  calls \<^verbatim>\<open>stop\<close> on it, logs the error and then waits in \<^verbatim>\<open>join()\<close> for ever, before
  the line that deletes the entry.
\<close>

theorem removal_blocked_counterexample:
  "update_bots threads_hang [tenant 1 (Some ''tok1'') None]
       [polling_worker 1 ''tok1'', polling_worker 3 ''tokC'']
     = Blocked [polling_worker 1 ''tok1'', stopped_entry (polling_worker 3 ''tokC'')]
         [SessionOpen, LoggerInfo (StoppingBot 3), ThreadStop 3,
          LoggerError (StopBotFailed 3)]"
  by code_simp

text \<open>
  C2, as the code has it. A tenant desired with one token in a cycle that returned and
  with another token in the next cycle: the next cycle returns when the thread of every
  stale worker finishes, and whenever it returns, its stop loop has called \<^verbatim>\<open>stop\<close>
  on the old worker and taken the tenant out of the registry, and its start loop has
  then started a new worker whose token is the new one.
\<close>

theorem update_bots_restarts_on_token_change:
  assumes "update_bots env1 db1 bots0 = Returned bots1 es1"
    and "map_of (user_tokens db1) T = Some tok1"
    and "map_of (user_tokens db2) T = Some tok2"
    and "tok1 \<noteq> tok2"
  shows "(\<exists>old. map_of bots1 T = Some old \<and> token old = tok1) \<and>
         (distinct (map fst bots0) \<and>
          (\<forall>k\<in>fst ` set bots1.
              stale (user_tokens db2) bots1 k = Inr True \<longrightarrow> thread_finishes env2 k)
            \<longrightarrow> (\<exists>bots2 es2. update_bots env2 db2 bots1 = Returned bots2 es2)) \<and>
         (\<forall>bots2 es2. update_bots env2 db2 bots1 = Returned bots2 es2 \<longrightarrow>
            (\<exists>mid stops starts.
               stop_loop env2 (user_tokens db2) (map fst bots1) bots1 = Returned mid stops \<and>
               start_loop (user_tokens db2) mid = (bots2, starts) \<and>
               es2 = [SessionOpen] @ stops @ starts @ [SessionClose] \<and>
               ThreadStop T \<in> set stops \<and> map_of mid T = None \<and>
               ThreadStart T tok2 \<in> set starts) \<and>
            map_of bots2 T = Some (BotThread_init tok2 T) \<and>
            token (BotThread_init tok2 T) = tok2)"
proof -
  note inv = update_bots_invariant [OF assms(1)]
  from inv assms(2) have "T \<in> fst ` set bots1"
    by (metis domI dom_map_of_conv_image_fst)
  then obtain old where old: "map_of bots1 T = Some old"
    using map_of_keys [of bots1 T] by auto
  with inv assms(2) have tok_old: "token old = tok1" by auto
  have st: "stale (user_tokens db2) bots1 T = Inr True"
    using old tok_old assms(3,4) by (simp add: stale_def)
  have returns: "distinct (map fst bots0) \<and>
          (\<forall>k\<in>fst ` set bots1.
              stale (user_tokens db2) bots1 k = Inr True \<longrightarrow> thread_finishes env2 k)
            \<longrightarrow> (\<exists>bots2 es2. update_bots env2 db2 bots1 = Returned bots2 es2)"
    using update_bots_returns update_bots_distinct [OF assms(1)] by blast
  have after: "(\<exists>mid stops starts.
               stop_loop env2 (user_tokens db2) (map fst bots1) bots1 = Returned mid stops \<and>
               start_loop (user_tokens db2) mid = (bots2, starts) \<and>
               es2 = [SessionOpen] @ stops @ starts @ [SessionClose] \<and>
               ThreadStop T \<in> set stops \<and> map_of mid T = None \<and>
               ThreadStart T tok2 \<in> set starts) \<and>
            map_of bots2 T = Some (BotThread_init tok2 T) \<and>
            token (BotThread_init tok2 T) = tok2"
    if ret: "update_bots env2 db2 bots1 = Returned bots2 es2" for bots2 es2
  proof -
    from ret obtain mid stops starts where
      s1: "stop_loop env2 (user_tokens db2) (map fst bots1) bots1 = Returned mid stops" and
      s2: "start_loop (user_tokens db2) mid = (bots2, starts)" and
      es: "es2 = [SessionOpen] @ stops @ starts @ [SessionClose]"
      by (auto simp: update_bots_Returned)
    have key: "T \<in> set (map fst bots1)" using \<open>T \<in> fst ` set bots1\<close> by simp
    have gone: "map_of mid T = None"
      using stop_loop_map_of [OF s1, of T] key st by simp
    have stop: "ThreadStop T \<in> set stops"
      using stop_loop_effects [OF s1] key st stopped_iff [of T stops] by simp
    have start: "ThreadStart T tok2 \<in> set starts"
      using start_loop_effects [OF s2, of T tok2] gone assms(3) by simp
    have new: "map_of bots2 T = Some (BotThread_init tok2 T)"
      using start_loop_map_of [OF s2, of T] gone assms(3) by simp
    from s1 s2 es gone stop start new show ?thesis
      by (auto simp: BotThread_init_def)
  qed
  from old tok_old returns after show ?thesis by blast
qed

theorem update_bots_restarts_on_token_change_witness:
  "update_bots threads_finish [tenant 1 (Some ''tok1'') None] []
     = Returned [worker 1 ''tok1'']
         [SessionOpen, LoggerInfo (StartingBot 1), ThreadStart 1 ''tok1'', SessionClose] \<and>
   map_of (user_tokens [tenant 1 (Some ''tok1'') None]) 1 = Some ''tok1'' \<and>
   map_of (user_tokens [tenant 1 (Some ''tok2'') None, tenant 2 (Some ''tokA'') None]) 1
     = Some ''tok2'' \<and>
   ''tok1'' \<noteq> ''tok2'' \<and>
   update_bots threads_finish [tenant 1 (Some ''tok2'') None, tenant 2 (Some ''tokA'') None]
       [worker 1 ''tok1'']
     = Returned [worker 1 ''tok2'', worker 2 ''tokA'']
         [SessionOpen, LoggerInfo (StoppingBot 1), ThreadStop 1, ThreadJoin 1,
          LoggerInfo (StartingBot 1), ThreadStart 1 ''tok2'',
          LoggerInfo (StartingBot 2), ThreadStart 2 ''tokA'', SessionClose] \<and>
   map_of [worker 1 ''tok2'', worker 2 ''tokA''] 1 = Some (BotThread_init ''tok2'' 1) \<and>
   token (BotThread_init ''tok2'' 1) = ''tok2''"
proof -
  have c1: "update_bots threads_finish [tenant 1 (Some ''tok1'') None] []
     = Returned [worker 1 ''tok1'']
         [SessionOpen, LoggerInfo (StartingBot 1), ThreadStart 1 ''tok1'', SessionClose]"
    by code_simp
  have t1: "map_of (user_tokens [tenant 1 (Some ''tok1'') None]) 1 = Some ''tok1''"
    by code_simp
  have t2: "map_of (user_tokens [tenant 1 (Some ''tok2'') None, tenant 2 (Some ''tokA'') None]) 1
     = Some ''tok2''"
    by code_simp
  have ne: "''tok1'' \<noteq> ''tok2''" by simp
  have c2: "update_bots threads_finish [tenant 1 (Some ''tok2'') None, tenant 2 (Some ''tokA'') None]
       [worker 1 ''tok1'']
     = Returned [worker 1 ''tok2'', worker 2 ''tokA'']
         [SessionOpen, LoggerInfo (StoppingBot 1), ThreadStop 1, ThreadJoin 1,
          LoggerInfo (StartingBot 1), ThreadStart 1 ''tok2'',
          LoggerInfo (StartingBot 2), ThreadStart 2 ''tokA'', SessionClose]"
    by code_simp
  from update_bots_restarts_on_token_change [OF c1 t1 t2 ne, of threads_finish] c1 t1 t2 ne c2
  show ?thesis by blast
qed

text \<open>
  C2, as the specification states it, fails: the token of tenant 1 changes between two
  cycles, the thread of the old worker never finishes, and the second cycle calls
  \<^verbatim>\<open>stop\<close> on the old worker and then waits in \<^verbatim>\<open>join()\<close> for ever; the registry
  keeps the old worker and no new worker is started.
\<close>

theorem token_change_blocked_counterexample:
  "update_bots threads_finish [tenant 1 (Some ''tok1'') None] []
     = Returned [worker 1 ''tok1'']
         [SessionOpen, LoggerInfo (StartingBot 1), ThreadStart 1 ''tok1'', SessionClose] \<and>
   update_bots threads_hang [tenant 1 (Some ''tok2'') None] [worker 1 ''tok1'']
     = Blocked [stopped_entry (worker 1 ''tok1'')]
         [SessionOpen, LoggerInfo (StoppingBot 1), ThreadStop 1]"
  by code_simp

text \<open>
  C7, as the code has it. When the \<^verbatim>\<open>run\<close> method of a worker ends, whatever made it
  end, all it has done is log one error and close its loop; the registry still holds the
  worker. While the tenant's desired token is the worker's token, the next cycle that
  returns keeps that entry and neither stops nor starts a worker for the tenant.
\<close>

theorem update_bots_keeps_dead_worker:
  assumes "BotThread_run outcome thr = Some (thr', es_run)"
    and "map_of bots T = Some thr'"
    and "map_of (user_tokens db) T = Some (token thr)"
    and "update_bots env db bots = Returned bots' es"
  shows "es_run = [LoggerError (BotFailed (user_id thr))] \<and> loop thr' = Some LoopClosed \<and>
         map_of bots' T = Some thr' \<and> T \<notin> set (started es) \<and> T \<notin> set (stopped es)"
proof -
  note run = BotThread_run_token [OF assms(1)]
  have fresh: "stale (user_tokens db) bots T = Inr False"
    using assms(2,3) run by (simp add: stale_def)
  have kept: "map_of bots' T = Some thr'"
    using update_bots_map_of [OF assms(4), of T] assms(2) fresh by simp
  have no_start: "T \<notin> set (started es)"
    using update_bots_effects(2) [OF assms(4), of T] assms(2) fresh
    by (simp add: started_iff)
  have no_stop: "T \<notin> set (stopped es)"
    using update_bots_effects(1) [OF assms(4)] fresh by simp
  from run kept no_start no_stop show ?thesis by simp
qed

theorem update_bots_keeps_dead_worker_witness:
  "BotThread_run PollingRaises (BotThread_init ''tok1'' 1)
     = Some (snd (dead_worker 1 ''tok1''), [LoggerError (BotFailed 1)]) \<and>
   map_of [dead_worker 1 ''tok1''] 1 = Some (snd (dead_worker 1 ''tok1'')) \<and>
   map_of (user_tokens [tenant 1 (Some ''tok1'') None]) 1
     = Some (token (BotThread_init ''tok1'' 1)) \<and>
   update_bots threads_finish [tenant 1 (Some ''tok1'') None] [dead_worker 1 ''tok1'']
     = Returned [dead_worker 1 ''tok1''] [SessionOpen, SessionClose] \<and>
   1 \<notin> set (started [SessionOpen, SessionClose]) \<and>
   1 \<notin> set (stopped [SessionOpen, SessionClose])"
proof -
  have died: "BotThread_run PollingRaises (BotThread_init ''tok1'' 1)
     = Some (snd (dead_worker 1 ''tok1''), [LoggerError (BotFailed 1)])"
    by code_simp
  have entry: "map_of [dead_worker 1 ''tok1''] 1 = Some (snd (dead_worker 1 ''tok1''))"
    by (simp add: dead_worker_def)
  have desired: "map_of (user_tokens [tenant 1 (Some ''tok1'') None]) 1
     = Some (token (BotThread_init ''tok1'' 1))"
    by code_simp
  have cycle: "update_bots threads_finish [tenant 1 (Some ''tok1'') None] [dead_worker 1 ''tok1'']
     = Returned [dead_worker 1 ''tok1''] [SessionOpen, SessionClose]"
    by code_simp
  from update_bots_keeps_dead_worker [OF died entry desired cycle] died entry desired cycle
  show ?thesis by blast
qed

text \<open>
  C7, as the specification states it, fails: the worker of tenant 1 has ended with an
  error in its receive loop, the tenant is still desired with the same token, and the
  next cycle starts nothing.
\<close>

theorem dead_worker_restart_counterexample:
  "BotThread_run PollingRaises (BotThread_init ''tok1'' 1)
     = Some (snd (dead_worker 1 ''tok1''), [LoggerError (BotFailed 1)]) \<and>
   update_bots threads_finish [tenant 1 (Some ''tok1'') None] [dead_worker 1 ''tok1'']
     = Returned [dead_worker 1 ''tok1''] [SessionOpen, SessionClose]"
  by code_simp

text \<open>
  C8, as the code has it. \<^verbatim>\<open>stop\<close> clears the flag of the worker and returns in every
  case; when the worker has an application and a running loop and stopping the
  application raises, the exception is logged. \<^verbatim>\<open>join()\<close> is then called without a
  timeout. On a registry with one entry per key, a cycle returns exactly when the thread
  of every stale worker finishes, and blocks for ever exactly when the thread of some
  stale worker does not. A cycle that returns has logged, stopped and joined every stale
  worker, in that order, and no longer holds it. A cycle that blocks has just stopped a
  stale worker whose thread does not finish, has not joined it, and the registry still
  holds that worker, with its flag cleared.
\<close>

theorem update_bots_joins_without_timeout:
  assumes "distinct (map fst bots)"
  shows "(\<forall>thr. BotThread_stop env thr =
            (thr\<lparr>running := False\<rparr>,
             if application thr \<noteq> None \<and> loop thr = Some LoopRunning
             then if stop_completes env (user_id thr)
                  then [AppStop (user_id thr), AppShutdown (user_id thr)]
                  else [LoggerError (StopBotFailed (user_id thr))]
             else [])) \<and>
         ((\<exists>bots' es. update_bots env db bots = Returned bots' es) \<longleftrightarrow>
          (\<forall>k\<in>fst ` set bots.
              stale (user_tokens db) bots k = Inr True \<longrightarrow> thread_finishes env k)) \<and>
         ((\<exists>held es. update_bots env db bots = Blocked held es) \<longleftrightarrow>
          (\<exists>k\<in>fst ` set bots.
              stale (user_tokens db) bots k = Inr True \<and> \<not> thread_finishes env k)) \<and>
         (\<forall>bots' es k thr. update_bots env db bots = Returned bots' es \<longrightarrow>
            map_of bots k = Some thr \<longrightarrow> stale (user_tokens db) bots k = Inr True \<longrightarrow>
            (\<exists>pre post. es = pre @ [LoggerInfo (StoppingBot k), ThreadStop k] @
                 snd (BotThread_stop env thr) @ [ThreadJoin k] @ post) \<and>
            k \<in> set (stopped es) \<and> ThreadJoin k \<in> set es \<and> map_of bots' k \<noteq> Some thr) \<and>
         (\<forall>held es. update_bots env db bots = Blocked held es \<longrightarrow>
            (\<exists>k thr pre. map_of bots k = Some thr \<and>
               stale (user_tokens db) bots k = Inr True \<and> \<not> thread_finishes env k \<and>
               es = pre @ [LoggerInfo (StoppingBot k), ThreadStop k] @
                    snd (BotThread_stop env thr) \<and>
               ThreadJoin k \<notin> set es \<and>
               map_of held k = Some (thr\<lparr>running := False\<rparr>)))"
proof -
  have stop: "\<forall>thr. BotThread_stop env thr =
            (thr\<lparr>running := False\<rparr>,
             if application thr \<noteq> None \<and> loop thr = Some LoopRunning
             then if stop_completes env (user_id thr)
                  then [AppStop (user_id thr), AppShutdown (user_id thr)]
                  else [LoggerError (StopBotFailed (user_id thr))]
             else [])"
    by (simp add: BotThread_stop_eq)
  have returns: "(\<exists>bots' es. update_bots env db bots = Returned bots' es) \<longleftrightarrow>
          (\<forall>k\<in>fst ` set bots.
              stale (user_tokens db) bots k = Inr True \<longrightarrow> thread_finishes env k)"
    using update_bots_blocks [OF assms, of db env] update_bots_returns [OF assms, of db env]
    by (metis result.distinct(3))
  have blocks: "(\<exists>held es. update_bots env db bots = Blocked held es) \<longleftrightarrow>
          (\<exists>k\<in>fst ` set bots.
              stale (user_tokens db) bots k = Inr True \<and> \<not> thread_finishes env k)"
    using update_bots_blocks [OF assms, of db env] update_bots_returns [OF assms, of db env]
    by (metis result.distinct(3))
  have stops: "(\<exists>pre post. es = pre @ [LoggerInfo (StoppingBot k), ThreadStop k] @
                 snd (BotThread_stop env thr) @ [ThreadJoin k] @ post) \<and>
            k \<in> set (stopped es) \<and> ThreadJoin k \<in> set es \<and> map_of bots' k \<noteq> Some thr"
    if ret: "update_bots env db bots = Returned bots' es"
      and thr: "map_of bots k = Some thr"
      and st: "stale (user_tokens db) bots k = Inr True" for bots' es k thr
  proof -
    have key: "k \<in> fst ` set bots" using thr map_of_keys [of bots k] by simp
    from ret obtain bots1 es1 es2 where
      s1: "stop_loop env (user_tokens db) (map fst bots) bots = Returned bots1 es1" and
      es: "es = [SessionOpen] @ es1 @ es2 @ [SessionClose]"
      by (auto simp: update_bots_Returned)
    from key have "k \<in> set (map fst bots)" by simp
    from stop_loop_trace [OF s1 this st thr] obtain pre post where
      "es1 = pre @ [LoggerInfo (StoppingBot k), ThreadStop k] @
                 snd (BotThread_stop env thr) @ [ThreadJoin k] @ post" by blast
    with es have "es = ([SessionOpen] @ pre) @ [LoggerInfo (StoppingBot k), ThreadStop k] @
                 snd (BotThread_stop env thr) @ [ThreadJoin k] @ (post @ es2 @ [SessionClose])"
      by simp
    then have order: "\<exists>pre post. es = pre @ [LoggerInfo (StoppingBot k), ThreadStop k] @
                 snd (BotThread_stop env thr) @ [ThreadJoin k] @ post" by blast
    have stop: "k \<in> set (stopped es)"
      using update_bots_effects(1) [OF ret] key st by simp
    have join: "ThreadJoin k \<in> set es"
      using update_bots_joins [OF ret key st] .
    have "map_of bots' k = map_option (\<lambda>t. BotThread_init t k) (map_of (user_tokens db) k)"
      using update_bots_map_of [OF ret, of k] thr st by simp
    moreover have "\<forall>t. map_of (user_tokens db) k = Some t \<longrightarrow> token thr \<noteq> t"
      using st thr by (auto simp: stale_def)
    ultimately have gone: "map_of bots' k \<noteq> Some thr"
      by (cases "map_of (user_tokens db) k") (auto simp: BotThread_init_def)
    from order stop join gone show ?thesis by simp
  qed
  have waits: "\<exists>k thr pre. map_of bots k = Some thr \<and>
               stale (user_tokens db) bots k = Inr True \<and> \<not> thread_finishes env k \<and>
               es = pre @ [LoggerInfo (StoppingBot k), ThreadStop k] @
                    snd (BotThread_stop env thr) \<and>
               ThreadJoin k \<notin> set es \<and>
               map_of held k = Some (thr\<lparr>running := False\<rparr>)"
    if blk: "update_bots env db bots = Blocked held es" for held es
  proof -
    from blk obtain es1 where
      s1: "stop_loop env (user_tokens db) (map fst bots) bots = Blocked held es1" and
      es: "es = [SessionOpen] @ es1"
      by (auto simp: update_bots_Blocked)
    from stop_loop_blocked_at [OF s1] obtain k thr pre where
      thr: "map_of bots k = Some thr" and st: "stale (user_tokens db) bots k = Inr True"
      and hang: "\<not> thread_finishes env k"
      and es1: "es1 = pre @ [LoggerInfo (StoppingBot k), ThreadStop k] @
                    snd (BotThread_stop env thr)"
      and nj: "ThreadJoin k \<notin> set es1"
      and held: "map_of held k = Some (fst (BotThread_stop env thr))"
      by blast
    have shape: "es = ([SessionOpen] @ pre) @ [LoggerInfo (StoppingBot k), ThreadStop k] @
                    snd (BotThread_stop env thr)"
      using es es1 by simp
    have nj': "ThreadJoin k \<notin> set es" using es nj by simp
    have held': "map_of held k = Some (thr\<lparr>running := False\<rparr>)"
      using held by (simp add: BotThread_stop_eq)
    from thr st hang shape nj' held' show ?thesis by blast
  qed
  from stop returns blocks stops waits show ?thesis by blast
qed

theorem update_bots_joins_without_timeout_witness:
  "distinct (map fst [polling_worker 1 ''tok1'']) \<and>
   stale (user_tokens []) [polling_worker 1 ''tok1''] 1 = Inr True \<and>
   \<not> thread_finishes threads_hang 1 \<and>
   BotThread_stop threads_hang (snd (polling_worker 1 ''tok1''))
     = (snd (stopped_entry (polling_worker 1 ''tok1'')), [LoggerError (StopBotFailed 1)]) \<and>
   (\<exists>held es. update_bots threads_hang [] [polling_worker 1 ''tok1''] = Blocked held es) \<and>
   \<not> (\<exists>bots' es. update_bots threads_hang [] [polling_worker 1 ''tok1''] = Returned bots' es)"
proof -
  have d: "distinct (map fst [polling_worker 1 ''tok1''])" by simp
  have st: "stale (user_tokens []) [polling_worker 1 ''tok1''] 1 = Inr True" by code_simp
  have hang: "\<not> thread_finishes threads_hang 1" by (simp add: threads_hang_def)
  have key: "(1::int) \<in> fst ` set [polling_worker 1 ''tok1'']" by (simp add: polling_worker_def)
  have stop: "BotThread_stop threads_hang (snd (polling_worker 1 ''tok1''))
     = (snd (stopped_entry (polling_worker 1 ''tok1'')), [LoggerError (StopBotFailed 1)])"
    by code_simp
  from update_bots_joins_without_timeout [OF d, of threads_hang "[]"] st hang key d stop
  show ?thesis by blast
qed

text \<open>
  C8, as the specification states it, fails: with one stale polling worker whose
  application does not stop and whose thread never finishes, the cycle calls
  \<^verbatim>\<open>stop\<close>, logs the error and then blocks in \<^verbatim>\<open>join()\<close>; it does not proceed and
  the registry still holds the worker.
\<close>

theorem join_timeout_counterexample:
  "update_bots threads_hang [] [polling_worker 1 ''tok1'']
     = Blocked [stopped_entry (polling_worker 1 ''tok1'')]
         [SessionOpen, LoggerInfo (StoppingBot 1), ThreadStop 1,
          LoggerError (StopBotFailed 1)]"
  by code_simp

text \<open>
  C9, as the code has it. The loop goes on as long as \<^verbatim>\<open>update_bots\<close> returns, one
  cycle after the other; each cycle ends its duration after it started, and the next
  cycle starts 10 time units after the previous one ended, never before.
\<close>

theorem BotManager_run_sleeps_after_each_cycle:
  assumes "BotManager_run cs now bots = (timeline, Some bots')"
  shows "length timeline = length cs \<and>
         (timeline \<noteq> [] \<longrightarrow> fst (hd timeline) = now) \<and>
         (\<forall>i<length timeline. snd (timeline ! i) = fst (timeline ! i) + duration (cs ! i)) \<and>
         (\<forall>i. Suc i < length timeline \<longrightarrow>
            fst (timeline ! Suc i) = snd (timeline ! i) + 10 \<and>
            snd (timeline ! i) \<le> fst (timeline ! Suc i))"
  using BotManager_run_timeline [OF assms] by simp

theorem BotManager_run_sleeps_after_each_cycle_witness:
  "BotManager_run [quiet_cycle 3, quiet_cycle 25, quiet_cycle 0] 0 []
     = ([(0, 3), (13, 38), (48, 48)], Some []) \<and>
   length [(0::nat, 3::nat), (13, 38), (48, 48)]
     = length [quiet_cycle 3, quiet_cycle 25, quiet_cycle 0] \<and>
   fst ([(0::nat, 3::nat), (13, 38), (48, 48)] ! Suc 0)
     = snd ([(0::nat, 3::nat), (13, 38), (48, 48)] ! 0) + 10"
proof -
  have run: "BotManager_run [quiet_cycle 3, quiet_cycle 25, quiet_cycle 0] 0 []
     = ([(0, 3), (13, 38), (48, 48)], Some [])"
    by code_simp
  have "Suc 0 < length [(0::nat, 3::nat), (13, 38), (48, 48)]" by simp
  with BotManager_run_sleeps_after_each_cycle [OF run] run show ?thesis
    by blast
qed

text \<open>
  C9, as the specification states it, fails: with cycles that take 3 time units the
  second cycle starts at 13, not 10 after the first start; with cycles that take 25 the
  second cycle starts at 35, not as soon as the first has finished.
\<close>

theorem fixed_period_counterexample:
  "BotManager_run [quiet_cycle 3, quiet_cycle 3] 0 [] = ([(0, 3), (13, 16)], Some []) \<and>
   BotManager_run [quiet_cycle 25, quiet_cycle 25] 0 [] = ([(0, 25), (35, 60)], Some [])"
  by code_simp

section \<open>The message handler\<close>

text \<open>
  C3, as the code has it. A message with a text that is not empty, to a worker whose
  tenant has a row in the store. With a system prompt, the handler makes one completion
  call, with the text and the prompt; when the request of that call returns or raises,
  the handler sends one reply, the value the call returned, and returns; when the
  request never returns, the handler waits in it and sends no reply. Without a system
  prompt, it makes no completion call, sends one reply, the fixed text that the prompt
  is not configured, and returns.
\<close>

theorem handle_message_one_reply:
  assumes "message upd = Some m" and "message_text m = Some txt" and "txt \<noteq> []"
    and "find (\<lambda>u. id_user u = user_id self) db = Some user"
  shows "(\<forall>sp. system_prompt user = Some sp \<longrightarrow>
            completion_calls (effects_of (handle_message db http self upd)) = [(txt, sp)] \<and>
            (http \<noteq> PostNeverReturns \<longrightarrow>
               (\<exists>v es. get_yandex_gpt_response http txt sp = (Some v, es) \<and>
                  handle_message db http self upd
                    = HandlerReturned ([SessionOpen] @ es @ [ReplyText v, SessionClose]) \<and>
                  replies (effects_of (handle_message db http self upd)) = [v])) \<and>
            (http = PostNeverReturns \<longrightarrow>
               handle_message db http self upd
                 = HandlerBlocked [SessionOpen, HttpPost txt sp] \<and>
               replies (effects_of (handle_message db http self upd)) = [])) \<and>
         (system_prompt user = None \<longrightarrow>
            handle_message db http self upd
              = HandlerReturned
                  [SessionOpen, ReplyText (JStr PROMPT_NOT_CONFIGURED_REPLY), SessionClose] \<and>
            completion_calls (effects_of (handle_message db http self upd)) = [] \<and>
            replies (effects_of (handle_message db http self upd))
              = [JStr PROMPT_NOT_CONFIGURED_REPLY])"
proof -
  have calls: "completion_calls (effects_of (handle_message db http self upd)) = [(txt, sp)]"
    if "system_prompt user = Some sp" for sp
    using assms(4) that
    by (simp add: handle_message_text [OF assms(1,2,3)] completion_calls_append
          get_yandex_gpt_response_effects split: option.splits)
  have returned: "\<exists>v es. get_yandex_gpt_response http txt sp = (Some v, es) \<and>
          handle_message db http self upd
            = HandlerReturned ([SessionOpen] @ es @ [ReplyText v, SessionClose]) \<and>
          replies (effects_of (handle_message db http self upd)) = [v]"
    if sp: "system_prompt user = Some sp" and ret: "http \<noteq> PostNeverReturns" for sp
  proof -
    from ret obtain v where v: "fst (get_yandex_gpt_response http txt sp) = Some v"
      using get_yandex_gpt_response_returns [of http "txt" sp] by auto
    then have pair: "get_yandex_gpt_response http txt sp
        = (Some v, snd (get_yandex_gpt_response http txt sp))"
      by (metis prod.collapse)
    have trace: "handle_message db http self upd
        = HandlerReturned ([SessionOpen] @ snd (get_yandex_gpt_response http txt sp) @
            [ReplyText v, SessionClose])"
      using assms(4) sp v by (simp add: handle_message_text [OF assms(1,2,3)])
    have one: "replies (effects_of (handle_message db http self upd)) = [v]"
      by (simp add: trace replies_append get_yandex_gpt_response_effects)
    from pair trace one show ?thesis by blast
  qed
  have blocked: "handle_message db http self upd = HandlerBlocked [SessionOpen, HttpPost txt sp] \<and>
             replies (effects_of (handle_message db http self upd)) = []"
    if "system_prompt user = Some sp" and "http = PostNeverReturns" for sp
    using assms(4) that
    by (simp add: handle_message_text [OF assms(1,2,3)] get_yandex_gpt_response_def
          completion_body_def)
  have unset: "handle_message db http self upd
              = HandlerReturned
                  [SessionOpen, ReplyText (JStr PROMPT_NOT_CONFIGURED_REPLY), SessionClose] \<and>
            completion_calls (effects_of (handle_message db http self upd)) = [] \<and>
            replies (effects_of (handle_message db http self upd))
              = [JStr PROMPT_NOT_CONFIGURED_REPLY]"
    if "system_prompt user = None"
    using assms(4) that by (simp add: handle_message_text [OF assms(1,2,3)])
  from calls returned blocked unset show ?thesis by blast
qed

theorem handle_message_one_reply_witness:
  "message (text_update ''hello'') = Some (Message (Some ''hello'')) \<and>
   message_text (Message (Some ''hello'')) = Some ''hello'' \<and> ''hello'' \<noteq> [] \<and>
   find (\<lambda>u. id_user u = user_id (BotThread_init ''tok1'' 1))
     [tenant 1 (Some ''tok1'') (Some ''be brief''), tenant 2 (Some ''tokA'') None]
     = Some (tenant 1 (Some ''tok1'') (Some ''be brief'')) \<and>
   system_prompt (tenant 1 (Some ''tok1'') (Some ''be brief'')) = Some ''be brief'' \<and>
   completion_response ''hi'' \<noteq> PostNeverReturns \<and>
   completion_calls (effects_of (handle_message
       [tenant 1 (Some ''tok1'') (Some ''be brief''), tenant 2 (Some ''tokA'') None]
       (completion_response ''hi'') (BotThread_init ''tok1'' 1) (text_update ''hello'')))
     = [(''hello'', ''be brief'')] \<and>
   get_yandex_gpt_response (completion_response ''hi'') ''hello'' ''be brief''
     = (Some (JStr ''hi''), [HttpPost ''hello'' ''be brief'']) \<and>
   replies (effects_of (handle_message
       [tenant 1 (Some ''tok1'') (Some ''be brief''), tenant 2 (Some ''tokA'') None]
       (completion_response ''hi'') (BotThread_init ''tok1'' 1) (text_update ''hello'')))
     = [JStr ''hi''] \<and>
   find (\<lambda>u. id_user u = user_id (BotThread_init ''tokA'' 2))
     [tenant 1 (Some ''tok1'') (Some ''be brief''), tenant 2 (Some ''tokA'') None]
     = Some (tenant 2 (Some ''tokA'') None) \<and>
   system_prompt (tenant 2 (Some ''tokA'') None) = None \<and>
   completion_calls (effects_of (handle_message
       [tenant 1 (Some ''tok1'') (Some ''be brief''), tenant 2 (Some ''tokA'') None]
       (completion_response ''hi'') (BotThread_init ''tokA'' 2) (text_update ''hello''))) = [] \<and>
   replies (effects_of (handle_message
       [tenant 1 (Some ''tok1'') (Some ''be brief''), tenant 2 (Some ''tokA'') None]
       (completion_response ''hi'') (BotThread_init ''tokA'' 2) (text_update ''hello'')))
     = [JStr PROMPT_NOT_CONFIGURED_REPLY]"
proof -
  have msg: "message (text_update ''hello'') = Some (Message (Some ''hello''))"
    by (simp add: text_update_def)
  have str: "message_text (Message (Some ''hello'')) = Some ''hello''" by simp
  have ne: "''hello'' \<noteq> []" by simp
  have row1: "find (\<lambda>u. id_user u = user_id (BotThread_init ''tok1'' 1))
     [tenant 1 (Some ''tok1'') (Some ''be brief''), tenant 2 (Some ''tokA'') None]
     = Some (tenant 1 (Some ''tok1'') (Some ''be brief''))"
    by (simp add: tenant_def BotThread_init_def)
  have sp1: "system_prompt (tenant 1 (Some ''tok1'') (Some ''be brief'')) = Some ''be brief''"
    by (simp add: tenant_def)
  have row2: "find (\<lambda>u. id_user u = user_id (BotThread_init ''tokA'' 2))
     [tenant 1 (Some ''tok1'') (Some ''be brief''), tenant 2 (Some ''tokA'') None]
     = Some (tenant 2 (Some ''tokA'') None)"
    by (simp add: tenant_def BotThread_init_def)
  have sp2: "system_prompt (tenant 2 (Some ''tokA'') None) = None"
    by (simp add: tenant_def)
  have came: "completion_response ''hi'' \<noteq> PostNeverReturns"
    by (simp add: completion_response_def response_with_def)
  have answer: "get_yandex_gpt_response (completion_response ''hi'') ''hello'' ''be brief''
     = (Some (JStr ''hi''), [HttpPost ''hello'' ''be brief''])"
    by (simp add: get_yandex_gpt_response_def completion_body_def response_text_def
          completion_response_def response_with_def)
  from handle_message_one_reply [OF msg str ne row1, of "completion_response ''hi''"]
    sp1 came answer
  have first: "completion_calls (effects_of (handle_message
       [tenant 1 (Some ''tok1'') (Some ''be brief''), tenant 2 (Some ''tokA'') None]
       (completion_response ''hi'') (BotThread_init ''tok1'' 1) (text_update ''hello'')))
     = [(''hello'', ''be brief'')] \<and>
   replies (effects_of (handle_message
       [tenant 1 (Some ''tok1'') (Some ''be brief''), tenant 2 (Some ''tokA'') None]
       (completion_response ''hi'') (BotThread_init ''tok1'' 1) (text_update ''hello'')))
     = [JStr ''hi'']"
    by auto
  from handle_message_one_reply [OF msg str ne row2, of "completion_response ''hi''"] sp2
  have second: "completion_calls (effects_of (handle_message
       [tenant 1 (Some ''tok1'') (Some ''be brief''), tenant 2 (Some ''tokA'') None]
       (completion_response ''hi'') (BotThread_init ''tokA'' 2) (text_update ''hello''))) = [] \<and>
   replies (effects_of (handle_message
       [tenant 1 (Some ''tok1'') (Some ''be brief''), tenant 2 (Some ''tokA'') None]
       (completion_response ''hi'') (BotThread_init ''tokA'' 2) (text_update ''hello'')))
     = [JStr PROMPT_NOT_CONFIGURED_REPLY]"
    by blast
  from msg str ne row1 sp1 came answer row2 sp2 first second show ?thesis by blast
qed

text \<open>
  C3, as the specification states it, fails: the tenant has a system prompt, the request
  of the completion call never returns, and the handler has made the call and sends no
  reply.
\<close>

theorem reply_never_sent_counterexample:
  "handle_message [tenant 1 (Some ''tok1'') (Some ''be brief'')] PostNeverReturns
       (BotThread_init ''tok1'' 1) (text_update ''hello'')
     = HandlerBlocked [SessionOpen, HttpPost ''hello'' ''be brief''] \<and>
   replies [SessionOpen, HttpPost ''hello'' ''be brief''] = []"
  by code_simp

text \<open>
  C6, as the code has it. A message with a text, to a worker whose tenant has a system
  prompt, when the completion call fails with an exception: the wrapper catches it, logs
  it and returns the fixed text that the answer could not be generated, and the handler
  sends that text as its one reply and returns. The exceptions are those of the request
  itself, of a status code from 400 to 599, of a body that is not JSON and of each
  subscript on the path to the text. The wrapper raises nothing: whenever its request
  returns or raises, it returns a value, the fixed text on an exception and otherwise
  the value the response holds under \<^verbatim>\<open>text\<close>, whatever that value is; when the request
  never returns, the wrapper does not return.
\<close>

theorem completion_failure_gives_fixed_reply:
  assumes "message upd = Some m" and "message_text m = Some txt" and "txt \<noteq> []"
    and "find (\<lambda>u. id_user u = user_id self) db = Some user"
    and "system_prompt user = Some sp"
    and "completion_body http = Some (Inl e)"
  shows "get_yandex_gpt_response http txt sp
           = (Some (JStr GENERATION_ERROR_REPLY),
              [HttpPost txt sp, LoggerError (GptFailed e)]) \<and>
         handle_message db http self upd
           = HandlerReturned
               [SessionOpen, HttpPost txt sp, LoggerError (GptFailed e),
                ReplyText (JStr GENERATION_ERROR_REPLY), SessionClose] \<and>
         replies (effects_of (handle_message db http self upd)) = [JStr GENERATION_ERROR_REPLY] \<and>
         (\<forall>http'. http' \<noteq> PostNeverReturns \<longrightarrow>
            (\<exists>v. fst (get_yandex_gpt_response http' txt sp) = Some v)) \<and>
         fst (get_yandex_gpt_response PostNeverReturns txt sp) = None \<and>
         (\<forall>http' e'. completion_body http' = Some (Inl e') \<longrightarrow>
            fst (get_yandex_gpt_response http' txt sp) = Some (JStr GENERATION_ERROR_REPLY)) \<and>
         completion_body PostRaises = Some (Inl RequestException) \<and>
         (\<forall>status body. 400 \<le> status \<and> status < 600 \<longrightarrow>
            completion_body (PostReturns status body) = Some (Inl HTTPError)) \<and>
         (\<forall>status. \<not> (400 \<le> status \<and> status < 600) \<longrightarrow>
            completion_body (PostReturns status None) = Some (Inl JSONDecodeError)) \<and>
         (\<forall>status j e'. \<not> (400 \<le> status \<and> status < 600) \<and>
            getitem_key j ''result'' = Inl e' \<longrightarrow>
            completion_body (PostReturns status (Some j)) = Some (Inl e')) \<and>
         (\<forall>status j r e'. \<not> (400 \<le> status \<and> status < 600) \<and>
            getitem_key j ''result'' = Inr r \<and> getitem_key r ''alternatives'' = Inl e' \<longrightarrow>
            completion_body (PostReturns status (Some j)) = Some (Inl e')) \<and>
         (\<forall>status j r alts e'. \<not> (400 \<le> status \<and> status < 600) \<and>
            getitem_key j ''result'' = Inr r \<and> getitem_key r ''alternatives'' = Inr alts \<and>
            getitem_0 alts = Inl e' \<longrightarrow>
            completion_body (PostReturns status (Some j)) = Some (Inl e')) \<and>
         (\<forall>status j r alts alt e'. \<not> (400 \<le> status \<and> status < 600) \<and>
            getitem_key j ''result'' = Inr r \<and> getitem_key r ''alternatives'' = Inr alts \<and>
            getitem_0 alts = Inr alt \<and> getitem_key alt ''message'' = Inl e' \<longrightarrow>
            completion_body (PostReturns status (Some j)) = Some (Inl e')) \<and>
         (\<forall>status j r alts alt msg e'. \<not> (400 \<le> status \<and> status < 600) \<and>
            getitem_key j ''result'' = Inr r \<and> getitem_key r ''alternatives'' = Inr alts \<and>
            getitem_0 alts = Inr alt \<and> getitem_key alt ''message'' = Inr msg \<and>
            getitem_key msg ''text'' = Inl e' \<longrightarrow>
            completion_body (PostReturns status (Some j)) = Some (Inl e')) \<and>
         (\<forall>status j r alts alt msg v. \<not> (400 \<le> status \<and> status < 600) \<and>
            getitem_key j ''result'' = Inr r \<and> getitem_key r ''alternatives'' = Inr alts \<and>
            getitem_0 alts = Inr alt \<and> getitem_key alt ''message'' = Inr msg \<and>
            getitem_key msg ''text'' = Inr v \<longrightarrow>
            get_yandex_gpt_response (PostReturns status (Some j)) txt sp
              = (Some v, [HttpPost txt sp]))"
proof -
  have wrapper: "get_yandex_gpt_response http txt sp
           = (Some (JStr GENERATION_ERROR_REPLY),
              [HttpPost txt sp, LoggerError (GptFailed e)])"
    using assms(6) by (simp add: get_yandex_gpt_response_def)
  have trace: "handle_message db http self upd
           = HandlerReturned
               [SessionOpen, HttpPost txt sp, LoggerError (GptFailed e),
                ReplyText (JStr GENERATION_ERROR_REPLY), SessionClose]"
    using assms(4,5) wrapper by (simp add: handle_message_text [OF assms(1,2,3)])
  have one: "replies (effects_of (handle_message db http self upd))
           = [JStr GENERATION_ERROR_REPLY]"
    by (simp add: trace)
  have returns: "\<forall>http'. http' \<noteq> PostNeverReturns \<longrightarrow>
            (\<exists>v. fst (get_yandex_gpt_response http' txt sp) = Some v)"
    using get_yandex_gpt_response_returns [of _ "txt" sp] by auto
  have never: "fst (get_yandex_gpt_response PostNeverReturns txt sp) = None"
    by (simp add: get_yandex_gpt_response_returns)
  have caught: "\<forall>http' e'. completion_body http' = Some (Inl e') \<longrightarrow>
            fst (get_yandex_gpt_response http' txt sp) = Some (JStr GENERATION_ERROR_REPLY)"
    by (simp add: get_yandex_gpt_response_def)
  have request: "completion_body PostRaises = Some (Inl RequestException)"
    by (simp add: completion_body_def)
  have status: "\<forall>status body. 400 \<le> status \<and> status < 600 \<longrightarrow>
            completion_body (PostReturns status body) = Some (Inl HTTPError)"
    by (simp add: completion_body_def response_text_def)
  have decode: "\<forall>status. \<not> (400 \<le> status \<and> status < 600) \<longrightarrow>
            completion_body (PostReturns status None) = Some (Inl JSONDecodeError)"
    by (simp add: completion_body_def response_text_def)
  have p1: "\<forall>status j e'. \<not> (400 \<le> status \<and> status < 600) \<and>
            getitem_key j ''result'' = Inl e' \<longrightarrow>
            completion_body (PostReturns status (Some j)) = Some (Inl e')"
    by (simp add: completion_body_def response_text_path)
  have p2: "\<forall>status j r e'. \<not> (400 \<le> status \<and> status < 600) \<and>
            getitem_key j ''result'' = Inr r \<and> getitem_key r ''alternatives'' = Inl e' \<longrightarrow>
            completion_body (PostReturns status (Some j)) = Some (Inl e')"
    by (simp add: completion_body_def response_text_path)
  have p3: "\<forall>status j r alts e'. \<not> (400 \<le> status \<and> status < 600) \<and>
            getitem_key j ''result'' = Inr r \<and> getitem_key r ''alternatives'' = Inr alts \<and>
            getitem_0 alts = Inl e' \<longrightarrow>
            completion_body (PostReturns status (Some j)) = Some (Inl e')"
    by (simp add: completion_body_def response_text_path)
  have p4: "\<forall>status j r alts alt e'. \<not> (400 \<le> status \<and> status < 600) \<and>
            getitem_key j ''result'' = Inr r \<and> getitem_key r ''alternatives'' = Inr alts \<and>
            getitem_0 alts = Inr alt \<and> getitem_key alt ''message'' = Inl e' \<longrightarrow>
            completion_body (PostReturns status (Some j)) = Some (Inl e')"
    by (simp add: completion_body_def response_text_path)
  have p5: "\<forall>status j r alts alt msg e'. \<not> (400 \<le> status \<and> status < 600) \<and>
            getitem_key j ''result'' = Inr r \<and> getitem_key r ''alternatives'' = Inr alts \<and>
            getitem_0 alts = Inr alt \<and> getitem_key alt ''message'' = Inr msg \<and>
            getitem_key msg ''text'' = Inl e' \<longrightarrow>
            completion_body (PostReturns status (Some j)) = Some (Inl e')"
    by (simp add: completion_body_def response_text_path)
  have success: "\<forall>status j r alts alt msg v. \<not> (400 \<le> status \<and> status < 600) \<and>
            getitem_key j ''result'' = Inr r \<and> getitem_key r ''alternatives'' = Inr alts \<and>
            getitem_0 alts = Inr alt \<and> getitem_key alt ''message'' = Inr msg \<and>
            getitem_key msg ''text'' = Inr v \<longrightarrow>
            get_yandex_gpt_response (PostReturns status (Some j)) txt sp
              = (Some v, [HttpPost txt sp])"
    by (simp add: get_yandex_gpt_response_def completion_body_def response_text_path)
  show ?thesis
    using wrapper trace one returns never caught request status decode p1 p2 p3 p4 p5 success
    by (intro conjI)
qed

theorem completion_failure_gives_fixed_reply_witness:
  "message (text_update ''hello'') = Some (Message (Some ''hello'')) \<and>
   message_text (Message (Some ''hello'')) = Some ''hello'' \<and> ''hello'' \<noteq> [] \<and>
   find (\<lambda>u. id_user u = user_id (BotThread_init ''tok1'' 1))
     [tenant 1 (Some ''tok1'') (Some ''be brief'')]
     = Some (tenant 1 (Some ''tok1'') (Some ''be brief'')) \<and>
   system_prompt (tenant 1 (Some ''tok1'') (Some ''be brief'')) = Some ''be brief'' \<and>
   completion_body no_alternatives = Some (Inl IndexError) \<and>
   handle_message [tenant 1 (Some ''tok1'') (Some ''be brief'')] no_alternatives
       (BotThread_init ''tok1'' 1) (text_update ''hello'')
     = HandlerReturned
         [SessionOpen, HttpPost ''hello'' ''be brief'', LoggerError (GptFailed IndexError),
          ReplyText (JStr GENERATION_ERROR_REPLY), SessionClose]"
proof -
  have msg: "message (text_update ''hello'') = Some (Message (Some ''hello''))"
    by (simp add: text_update_def)
  have str: "message_text (Message (Some ''hello'')) = Some ''hello''" by simp
  have ne: "''hello'' \<noteq> []" by simp
  have row: "find (\<lambda>u. id_user u = user_id (BotThread_init ''tok1'' 1))
     [tenant 1 (Some ''tok1'') (Some ''be brief'')]
     = Some (tenant 1 (Some ''tok1'') (Some ''be brief''))"
    by (simp add: tenant_def BotThread_init_def)
  have sp: "system_prompt (tenant 1 (Some ''tok1'') (Some ''be brief'')) = Some ''be brief''"
    by (simp add: tenant_def)
  have fails: "completion_body no_alternatives = Some (Inl IndexError)"
    by (simp add: completion_body_def response_text_def no_alternatives_def)
  from completion_failure_gives_fixed_reply [OF msg str ne row sp fails] msg str ne row sp fails
  show ?thesis by blast
qed

text \<open>
  C6, as the specification states it, fails: the response of the completion service
  holds \<^verbatim>\<open>null\<close> under \<^verbatim>\<open>text\<close>, no exception is raised, and the wrapper returns
  \<^verbatim>\<open>None\<close>, which is not a string; the handler passes it on as the reply.
\<close>

theorem non_string_answer_counterexample:
  "get_yandex_gpt_response (response_with JNull) ''hello'' ''be brief''
     = (Some JNull, [HttpPost ''hello'' ''be brief'']) \<and>
   handle_message [tenant 1 (Some ''tok1'') (Some ''be brief'')] (response_with JNull)
       (BotThread_init ''tok1'' 1) (text_update ''hello'')
     = HandlerReturned
         [SessionOpen, HttpPost ''hello'' ''be brief'', ReplyText JNull, SessionClose]"
  by code_simp

text \<open>
  C10. A message with a text, to a worker whose tenant has no row in the store: the
  handler makes no completion call, sends one reply, the fixed text that the prompt is
  not configured, closes the session and returns, exactly as it does for a tenant whose
  row has no system prompt.
\<close>

theorem handle_message_absent_user:
  assumes "message upd = Some m" and "message_text m = Some txt" and "txt \<noteq> []"
    and "find (\<lambda>u. id_user u = user_id self) db = None"
  shows "handle_message db http self upd
           = HandlerReturned
               [SessionOpen, ReplyText (JStr PROMPT_NOT_CONFIGURED_REPLY), SessionClose] \<and>
         completion_calls (effects_of (handle_message db http self upd)) = [] \<and>
         replies (effects_of (handle_message db http self upd))
           = [JStr PROMPT_NOT_CONFIGURED_REPLY] \<and>
         (\<forall>db' user. find (\<lambda>u. id_user u = user_id self) db' = Some user \<and>
              system_prompt user = None \<longrightarrow>
              handle_message db' http self upd = handle_message db http self upd)"
  using assms(4) by (simp add: handle_message_text [OF assms(1,2,3)])

theorem handle_message_absent_user_witness:
  "message (text_update ''hello'') = Some (Message (Some ''hello'')) \<and>
   message_text (Message (Some ''hello'')) = Some ''hello'' \<and> ''hello'' \<noteq> [] \<and>
   find (\<lambda>u. id_user u = user_id (BotThread_init ''tokC'' 3))
     [tenant 1 (Some ''tok1'') (Some ''be brief'')] = None \<and>
   handle_message [tenant 1 (Some ''tok1'') (Some ''be brief'')] (completion_response ''hi'')
       (BotThread_init ''tokC'' 3) (text_update ''hello'')
     = HandlerReturned
         [SessionOpen, ReplyText (JStr PROMPT_NOT_CONFIGURED_REPLY), SessionClose] \<and>
   completion_calls (effects_of (handle_message [tenant 1 (Some ''tok1'') (Some ''be brief'')]
       (completion_response ''hi'') (BotThread_init ''tokC'' 3) (text_update ''hello''))) = []"
proof -
  have msg: "message (text_update ''hello'') = Some (Message (Some ''hello''))"
    by (simp add: text_update_def)
  have str: "message_text (Message (Some ''hello'')) = Some ''hello''" by simp
  have ne: "''hello'' \<noteq> []" by simp
  have row: "find (\<lambda>u. id_user u = user_id (BotThread_init ''tokC'' 3))
     [tenant 1 (Some ''tok1'') (Some ''be brief'')] = None"
    by (simp add: tenant_def BotThread_init_def)
  from handle_message_absent_user [OF msg str ne row, of "completion_response ''hi''"]
    msg str ne row
  show ?thesis by blast
qed

end
